theory Spec2Isabelle
  imports Complex_Main "HOL-Library.AList" "HOL-Library.Product_Lexorder"
begin

section \<open>Data model: cells, series and frames\<close>

text \<open>
  A pandas cell is a float, a timestamp, a string, or missing (\<open>NaN\<close>, \<open>NaT\<close>, \<open>None\<close>).
  Floats are idealised as reals. A timestamp is the pair of its calendar month (counted
  from a fixed epoch) and its offset inside that month, so that the first day of a month
  at midnight is \<open>Stamp m 0\<close>; timestamps are ordered lexicographically.
\<close>

datatype cell = NaN | Num real | Stamp int nat | Str string

type_synonym series = "cell list"

text \<open>
  A DataFrame is its columns in order, each a series over the same rows. \<open>df[c]\<close> is
  \<open>getcol\<close> (raising \<open>KeyError\<close> when absent) and \<open>df[c] = s\<close> is \<open>setcol\<close>:
  an existing column is replaced where it stands, a new one is added last.
\<close>

type_synonym frame = "(string \<times> series) list"

datatype error =
    KeyError string
  | ValueError string
  | IndexError
  | TypeError
  | DataError
  | OtherError string

definition columns :: "frame \<Rightarrow> string list" where
  "columns df = map fst df"

definition nrows :: "frame \<Rightarrow> nat" where
  "nrows df = (case df of [] \<Rightarrow> 0 | (c, s) # rest \<Rightarrow> length s)"

definition rect :: "frame \<Rightarrow> bool" where
  "rect df \<longleftrightarrow> list_all (\<lambda>(c, s). length s = nrows df) df"

definition wf_frame :: "frame \<Rightarrow> bool" where
  "wf_frame df \<longleftrightarrow> distinct (columns df) \<and> rect df"

definition getcol :: "frame \<Rightarrow> string \<Rightarrow> series option" where
  "getcol df c = map_of df c"

definition setcol :: "string \<Rightarrow> series \<Rightarrow> frame \<Rightarrow> frame" where
  "setcol c s df = AList.update c s df"

section \<open>Python's \<open>str\<close> on integers\<close>

definition digit_char :: "nat \<Rightarrow> char" where
  "digit_char d = ''0123456789'' ! d"

fun str_nat :: "nat \<Rightarrow> string" where
  "str_nat n = (if n < 10 then [digit_char n] else str_nat (n div 10) @ [digit_char (n mod 10)])"

declare str_nat.simps [simp del]

definition str_int :: "int \<Rightarrow> string" where
  "str_int k = (if k < 0 then CHR ''-'' # str_nat (nat (- k)) else str_nat (nat k))"

section \<open>Transform primitives (src/data/transforms.py)\<close>

text \<open>
  \<open>Series.shift(k)\<close>: the values move \<open>k\<close> rows down (up for negative \<open>k\<close>), the vacated
  rows are missing, the length is kept.
\<close>

definition shift :: "int \<Rightarrow> series \<Rightarrow> series" where
  "shift k s =
     (let n = length s in
      if 0 \<le> k then replicate (min (nat k) n) NaN @ take (n - nat k) s
      else drop (nat (- k)) s @ replicate (min (nat (- k)) n) NaN)"

definition lag_name :: "string \<Rightarrow> int \<Rightarrow> string" where
  "lag_name value_col lag = value_col @ ''_lag_'' @ str_int lag"

text \<open>
  \<open>add_lag_features(df, value_col, lags)\<close>: the loop body reads \<open>df[value_col]\<close> afresh
  for every lag and stores the shifted series under \<open>f"{value_col}_lag_{lag}"\<close>.
\<close>

fun add_lag_features :: "frame \<Rightarrow> string \<Rightarrow> int list \<Rightarrow> error + frame" where
  "add_lag_features df value_col [] = Inr df"
| "add_lag_features df value_col (lag # lags) =
     (case getcol df value_col of
        None \<Rightarrow> Inl (KeyError value_col)
      | Some s \<Rightarrow> add_lag_features (setcol (lag_name value_col lag) (shift lag s) df) value_col lags)"

text \<open>
  The same loop on the object level. A DataFrame variable holds a reference and the store
  maps references to frames; \<open>df[name] = ...\<close> writes into the frame the parameter refers
  to, which is the caller's, and \<open>return df\<close> hands that reference back.
\<close>

type_synonym ref = nat

type_synonym store = "ref \<Rightarrow> frame"

fun add_lag_features_at :: "store \<Rightarrow> ref \<Rightarrow> string \<Rightarrow> int list \<Rightarrow> (error + ref) \<times> store" where
  "add_lag_features_at h df value_col [] = (Inr df, h)"
| "add_lag_features_at h df value_col (lag # lags) =
     (case getcol (h df) value_col of
        None \<Rightarrow> (Inl (KeyError value_col), h)
      | Some s \<Rightarrow>
          add_lag_features_at
            (h(df := setcol (lag_name value_col lag) (shift lag s) (h df))) df value_col lags)"

text \<open>
  \<open>Series.rolling(window)\<close> with pandas' defaults: the window at row \<open>i\<close> is the rows
  \<open>max 0 (i - window + 1) .. i\<close>, its observations are the values that are not missing, and
  a result is produced only when there are at least \<open>min_periods = window\<close> observations.
\<close>

definition window_at :: "nat \<Rightarrow> series \<Rightarrow> nat \<Rightarrow> series" where
  "window_at w s i = drop (Suc i - w) (take (Suc i) s)"

fun observed :: "series \<Rightarrow> real list" where
  "observed [] = []"
| "observed (Num x # cs) = x # observed cs"
| "observed (c # cs) = observed cs"

definition rolling :: "nat \<Rightarrow> (real list \<Rightarrow> cell) \<Rightarrow> series \<Rightarrow> series" where
  "rolling w f s =
     map (\<lambda>i. let xs = observed (window_at w s i) in if w \<le> length xs then f xs else NaN)
       [0..<length s]"

definition mean :: "real list \<Rightarrow> real" where
  "mean xs = sum_list xs / real (length xs)"

text \<open>The sample standard deviation (\<open>ddof = 1\<close>), pandas' default for \<open>std\<close>.\<close>

definition sample_std :: "real list \<Rightarrow> real" where
  "sample_std xs = sqrt (sum_list (map (\<lambda>x. (x - mean xs)\<^sup>2) xs) / real (length xs - 1))"

definition supported_stats :: "string list" where
  "supported_stats = [''mean'', ''std'', ''min'', ''max'']"

text \<open>
  The value of \<open>roll.mean()\<close>, \<open>roll.std()\<close>, \<open>roll.min()\<close>, \<open>roll.max()\<close> on the observations
  of one window: no observation gives no value, and one observation gives no \<open>std\<close>.
\<close>

definition stat_value :: "string \<Rightarrow> real list \<Rightarrow> cell" where
  "stat_value stat xs =
     (if stat = ''mean'' then (if xs = [] then NaN else Num (mean xs))
      else if stat = ''std'' then (if length xs < 2 then NaN else Num (sample_std xs))
      else if stat = ''min'' then (if xs = [] then NaN else Num (Min (set xs)))
      else if stat = ''max'' then (if xs = [] then NaN else Num (Max (set xs)))
      else NaN)"

definition is_numeric :: "series \<Rightarrow> bool" where
  "is_numeric s = list_all (\<lambda>c. case c of NaN \<Rightarrow> True | Num x \<Rightarrow> True | _ \<Rightarrow> False) s"

definition roll_name :: "string \<Rightarrow> string \<Rightarrow> int \<Rightarrow> string" where
  "roll_name value_col stat window = value_col @ ''_roll_'' @ stat @ ''_'' @ str_int window"

text \<open>
  \<open>add_rolling_features(df, value_col, windows, stats)\<close>. The inner loop over \<open>stats\<close> for one
  window: \<open>df[value_col].rolling(window)\<close> raises \<open>KeyError\<close> for an absent column and
  \<open>ValueError\<close> for a negative window; the \<open>if\<close>/\<open>elif\<close> chain raises \<open>ValueError\<close> for a name
  outside the four statistics; the aggregation itself raises on a column that is not numeric.
\<close>

fun rolling_stats :: "frame \<Rightarrow> string \<Rightarrow> int \<Rightarrow> string list \<Rightarrow> error + frame" where
  "rolling_stats df value_col window [] = Inr df"
| "rolling_stats df value_col window (stat # stats) =
     (case getcol df value_col of
        None \<Rightarrow> Inl (KeyError value_col)
      | Some s \<Rightarrow>
          if window < 0 then Inl (ValueError ''window must be an integer 0 or greater'')
          else if stat \<notin> set supported_stats then Inl (ValueError (''Unsupported stat: '' @ stat))
          else if \<not> is_numeric s then Inl DataError
          else rolling_stats
                 (setcol (roll_name value_col stat window)
                    (rolling (nat window) (stat_value stat) s) df)
                 value_col window stats)"

fun rolling_windows :: "frame \<Rightarrow> string \<Rightarrow> int list \<Rightarrow> string list \<Rightarrow> error + frame" where
  "rolling_windows df value_col [] stats = Inr df"
| "rolling_windows df value_col (window # windows) stats =
     (case rolling_stats df value_col window stats of
        Inl e \<Rightarrow> Inl e
      | Inr df' \<Rightarrow> rolling_windows df' value_col windows stats)"

definition add_rolling_features ::
  "frame \<Rightarrow> string \<Rightarrow> int list \<Rightarrow> string list option \<Rightarrow> error + frame" where
  "add_rolling_features df value_col windows stats =
     rolling_windows df value_col windows
       (case stats of None \<Rightarrow> [''mean'', ''std''] | Some st \<Rightarrow> st)"

section \<open>Frame operations used by the builder and the preparer\<close>

text \<open>
  Row selection by position (\<open>take\<close>), as pandas does after computing an index order or a
  boolean mask.
\<close>

definition take_rows :: "nat list \<Rightarrow> frame \<Rightarrow> frame" where
  "take_rows idx df = map (\<lambda>(c, s). (c, map (\<lambda>i. s ! i) idx)) df"

definition filter_rows :: "(nat \<Rightarrow> bool) \<Rightarrow> frame \<Rightarrow> frame" where
  "filter_rows keep df = take_rows (filter keep [0..<nrows df]) df"

text \<open>
  \<open>df.sort_values(by)\<close> on a timestamp column: ascending, missing timestamps last, ties in
  their original order. A column that mixes timestamps with other values cannot be compared
  and raises \<open>TypeError\<close>.
\<close>

definition is_stamp :: "cell \<Rightarrow> bool" where
  "is_stamp c = (case c of Stamp m d \<Rightarrow> True | _ \<Rightarrow> False)"

definition stamp_key :: "cell \<Rightarrow> int \<times> nat" where
  "stamp_key c = (case c of Stamp m d \<Rightarrow> (m, d) | _ \<Rightarrow> (0, 0))"

definition argsort :: "series \<Rightarrow> error + nat list" where
  "argsort s =
     (if list_all (\<lambda>c. is_stamp c \<or> c = NaN) s
      then Inr (sort_key (\<lambda>i. stamp_key (s ! i)) (filter (\<lambda>i. s ! i \<noteq> NaN) [0..<length s]) @
                filter (\<lambda>i. s ! i = NaN) [0..<length s])
      else Inl TypeError)"

definition sort_values :: "frame \<Rightarrow> string \<Rightarrow> error + frame" where
  "sort_values df by =
     (case getcol df by of
        None \<Rightarrow> Inl (KeyError by)
      | Some s \<Rightarrow> (case argsort s of Inl e \<Rightarrow> Inl e | Inr idx \<Rightarrow> Inr (take_rows idx df)))"

text \<open>\<open>df.dropna()\<close>: keep the rows without a missing value in any column.\<close>

definition notna_row :: "frame \<Rightarrow> nat \<Rightarrow> bool" where
  "notna_row df i = list_all (\<lambda>(c, s). s ! i \<noteq> NaN) df"

definition dropna :: "frame \<Rightarrow> frame" where
  "dropna df = filter_rows (notna_row df) df"

text \<open>
  \<open>pd.concat([a, b], ignore_index=True)\<close>: the rows of \<open>b\<close> after the rows of \<open>a\<close>; the columns
  of \<open>a\<close>, then those of \<open>b\<close> that \<open>a\<close> lacks; a column absent on one side is missing there.
\<close>

definition col_or_missing :: "frame \<Rightarrow> string \<Rightarrow> series" where
  "col_or_missing df c = (case getcol df c of None \<Rightarrow> replicate (nrows df) NaN | Some s \<Rightarrow> s)"

definition concat_df :: "frame \<Rightarrow> frame \<Rightarrow> frame" where
  "concat_df a b =
     map (\<lambda>c. (c, col_or_missing a c @ col_or_missing b c))
       (columns a @ filter (\<lambda>c. c \<notin> set (columns a)) (columns b))"

text \<open>\<open>df[cols]\<close> with a list of names: \<open>KeyError\<close> when one is absent.\<close>

fun select_columns :: "frame \<Rightarrow> string list \<Rightarrow> error + frame" where
  "select_columns df [] = Inr []"
| "select_columns df (c # cs) =
     (case getcol df c of
        None \<Rightarrow> Inl (KeyError c)
      | Some s \<Rightarrow> (case select_columns df cs of Inl e \<Rightarrow> Inl e | Inr r \<Rightarrow> Inr ((c, s) # r)))"

section \<open>Feature generation shared by builder and preparer\<close>

definition target_col :: string where
  "target_col = ''saudi_production''"

text \<open>
  The body of the loop \<open>for col in [target_col] + ...\<close>, the same two calls in
  \<open>build_features\<close> and in \<open>Forecaster._prepare_inputs\<close>.
\<close>

definition derive_col :: "frame \<Rightarrow> string \<Rightarrow> error + frame" where
  "derive_col df col =
     (case add_lag_features df col [1, 2, 3, 6, 12] of
        Inl e \<Rightarrow> Inl e
      | Inr df' \<Rightarrow> add_rolling_features df' col [3, 6, 12] None)"

fun derive_features :: "frame \<Rightarrow> string list \<Rightarrow> error + frame" where
  "derive_features df [] = Inr df"
| "derive_features df (col # cols) =
     (case derive_col df col of Inl e \<Rightarrow> Inl e | Inr df' \<Rightarrow> derive_features df' cols)"

text \<open>
  \<open>[c for c in df.columns if c not in {"date", target_col}]\<close>, and step 5 of the builder
  (build_features.py, lines 179 to 185) on a merged table.
\<close>

definition other_columns :: "frame \<Rightarrow> string list" where
  "other_columns df = filter (\<lambda>c. c \<noteq> ''date'' \<and> c \<noteq> target_col) (columns df)"

definition feature_step :: "frame \<Rightarrow> error + frame" where
  "feature_step df = derive_features df (target_col # other_columns df)"

section \<open>Scenario inference preparer (src/models/forecast.py)\<close>

text \<open>
  A row taken out of a frame is a pandas Series indexed by the column names. The scenario is
  a dictionary from variable names to lists of floats, iterated in insertion order.
\<close>

type_synonym row = "(string \<times> cell) list"

type_synonym scenario = "(string \<times> real list) list"

record forecaster =
  model :: "cell list \<Rightarrow> real"
  feature_columns :: "string list option"

text \<open>\<open>base_df.iloc[-1]\<close>: the last row, \<open>IndexError\<close> on a frame without rows.\<close>

definition iloc_last :: "frame \<Rightarrow> error + row" where
  "iloc_last df = (if nrows df = 0 then Inl IndexError else Inr (map (\<lambda>(c, s). (c, last s)) df))"

text \<open>
  The inner loop \<open>for var, values in scenario.items()\<close> and the body of the loop over the
  requested dates: copy the template, set its date, apply the overrides.
\<close>

fun apply_scenario :: "row \<Rightarrow> nat \<Rightarrow> scenario \<Rightarrow> row" where
  "apply_scenario row idx [] = row"
| "apply_scenario row idx ((var, values) # rest) =
     apply_scenario
       (if idx < length values \<and> var \<in> set (map fst row)
        then AList.update var (Num (values ! idx)) row else row)
       idx rest"

definition synth_row :: "row \<Rightarrow> nat \<Rightarrow> cell \<Rightarrow> scenario \<Rightarrow> row" where
  "synth_row last_row idx date scenario = apply_scenario (AList.update ''date'' date last_row) idx scenario"

text \<open>\<open>pd.DataFrame(rows)\<close> for rows that share one index.\<close>

definition frame_of_rows :: "row list \<Rightarrow> frame" where
  "frame_of_rows rows =
     (case rows of
        [] \<Rightarrow> []
      | r # rest \<Rightarrow>
          map (\<lambda>c. (c, map (\<lambda>r'. case map_of r' c of None \<Rightarrow> NaN | Some v \<Rightarrow> v) rows)) (map fst r))"

text \<open>
  Lines 80 to 95 of \<open>_prepare_inputs\<close>: the history sorted by date, one synthesized row per
  requested date, both concatenated and sorted by date again. \<open>features\<close> is the content
  of the persisted feature matrix and \<open>dates\<close> are the requested dates after
  \<open>pd.to_datetime\<close>.
\<close>

definition prepare_combined :: "frame \<Rightarrow> cell list \<Rightarrow> scenario \<Rightarrow> error + frame" where
  "prepare_combined features dates scenario =
     (case sort_values features ''date'' of
        Inl e \<Rightarrow> Inl e
      | Inr base_df \<Rightarrow>
          (case iloc_last base_df of
             Inl e \<Rightarrow> Inl e
           | Inr last_row \<Rightarrow>
               sort_values
                 (concat_df base_df
                    (frame_of_rows
                       (map (\<lambda>(idx, date). synth_row last_row idx date scenario) (enumerate 0 dates))))
                 ''date''))"

text \<open>
  Lines 97 to 101: the derived columns are recomputed for the target and for every other
  column of the persisted matrix except the date.
\<close>

definition recompute_features :: "frame \<Rightarrow> frame \<Rightarrow> error + frame" where
  "recompute_features features combined =
     derive_features combined (target_col # other_columns features)"

text \<open>
  Lines 103 to 113: drop incomplete rows, keep the rows whose date is among the requested
  dates, project onto the model's columns. The result carries the number of selected
  rows, which a projection onto no column would otherwise lose.
\<close>

definition startswith :: "string \<Rightarrow> string \<Rightarrow> bool" where
  "startswith c p = (take (length p) c = p)"

definition prepare_inputs ::
  "forecaster \<Rightarrow> frame \<Rightarrow> cell list \<Rightarrow> scenario \<Rightarrow> error + (nat \<times> frame)" where
  "prepare_inputs fc features dates scenario =
     (case prepare_combined features dates scenario of
        Inl e \<Rightarrow> Inl e
      | Inr combined0 \<Rightarrow>
          (case recompute_features features combined0 of
             Inl e \<Rightarrow> Inl e
           | Inr combined1 \<Rightarrow>
               (let combined = dropna combined1 in
                case getcol combined ''date'' of
                  None \<Rightarrow> Inl (KeyError ''date'')
                | Some d \<Rightarrow>
                    (let pred_df = filter_rows (\<lambda>i. d ! i \<in> set dates) combined in
                     case feature_columns fc of
                       Some cols \<Rightarrow>
                         (case select_columns pred_df cols of
                            Inl e \<Rightarrow> Inl e
                          | Inr X \<Rightarrow> Inr (nrows pred_df, X))
                     | None \<Rightarrow>
                         (let drop_cols = [''date'', target_col] @
                                filter (\<lambda>c. startswith c target_col) (columns combined)
                          in Inr (nrows pred_df,
                                  filter (\<lambda>(c, s). c \<notin> set drop_cols) pred_df))))))"

text \<open>
  \<open>Forecaster.predict\<close>: the regressor is applied to the prepared matrix and yields one value
  per row, in the order of the rows.
\<close>

definition predict :: "forecaster \<Rightarrow> frame \<Rightarrow> cell list \<Rightarrow> scenario option \<Rightarrow> error + real list" where
  "predict fc features dates scenario =
     (case prepare_inputs fc features dates (case scenario of None \<Rightarrow> [] | Some sc \<Rightarrow> sc) of
        Inl e \<Rightarrow> Inl e
      | Inr (n, X) \<Rightarrow> Inr (map (\<lambda>i. model fc (map (\<lambda>(c, s). s ! i) X)) [0..<n]))"

section \<open>Resampling to month starts (src/data/transforms.py)\<close>

text \<open>
  \<open>resample_to_month_start(df, date_col, value_cols, how)\<close> for the two aggregations the
  builder uses. The resampled grid is every month from the month of the earliest date to
  the month of the latest one. With \<open>how = "ffill"\<close> the frame is reindexed onto the grid,
  each month start taking the row with the latest date not after it; pandas refuses to
  reindex an index with a missing or repeated date. With \<open>how = "mean"\<close> each month takes
  the mean of the values present in it.
\<close>

definition ffill_at :: "series \<Rightarrow> series \<Rightarrow> int \<Rightarrow> cell" where
  "ffill_at d s m =
     (let before = sort_key (\<lambda>i. stamp_key (d ! i))
                     (filter (\<lambda>i. stamp_key (d ! i) \<le> (m, 0)) [0..<length d])
      in if before = [] then NaN else s ! last before)"

definition month_mean :: "series \<Rightarrow> series \<Rightarrow> int \<Rightarrow> cell" where
  "month_mean d s m =
     (let xs = observed (map (\<lambda>i. s ! i)
                 (filter (\<lambda>i. is_stamp (d ! i) \<and> fst (stamp_key (d ! i)) = m) [0..<length d]))
      in if xs = [] then NaN else Num (mean xs))"

definition month_grid :: "series \<Rightarrow> int list" where
  "month_grid d =
     (let months = map (\<lambda>c. fst (stamp_key c)) (filter is_stamp d)
      in if months = [] then [] else [Min (set months)..Max (set months)])"

definition resample_to_month_start ::
  "frame \<Rightarrow> string \<Rightarrow> string list \<Rightarrow> string \<Rightarrow> error + frame" where
  "resample_to_month_start df date_col value_cols how =
     (case getcol df date_col of
        None \<Rightarrow> Inl (KeyError date_col)
      | Some d \<Rightarrow>
          if \<not> list_all (\<lambda>c. is_stamp c \<or> c = NaN) d then Inl (ValueError ''to_datetime'')
          else
            (case select_columns df value_cols of
               Inl e \<Rightarrow> Inl e
             | Inr vals \<Rightarrow>
                 if how = ''ffill'' then
                   (if NaN \<in> set d \<or> \<not> distinct d then Inl (ValueError ''cannot reindex'')
                    else Inr ((date_col, map (\<lambda>m. Stamp m 0) (month_grid d)) #
                              map (\<lambda>(c, s). (c, map (ffill_at d s) (month_grid d))) vals))
                 else if how = ''mean'' then
                   (if \<not> list_all (\<lambda>(c, s). is_numeric s) vals then Inl DataError
                    else Inr ((date_col, map (\<lambda>m. Stamp m 0) (month_grid d)) #
                              map (\<lambda>(c, s). (c, map (month_mean d s) (month_grid d))) vals))
                 else Inl (OtherError how)))"

section \<open>Feature-matrix builder (src/features/build_features.py)\<close>

text \<open>
  Strings: \<open>str.lower\<close> on ASCII letters and the substring test \<open>sub in s\<close>.
\<close>

definition lower_char :: "char \<Rightarrow> char" where
  "lower_char c = (let n = (of_char c :: nat) in if 65 \<le> n \<and> n \<le> 90 then char_of (n + 32) else c)"

definition lower :: "string \<Rightarrow> string" where
  "lower s = map lower_char s"

fun contains :: "string \<Rightarrow> string \<Rightarrow> bool" where
  "contains [] sub = (sub = [])"
| "contains (c # s) sub = (startswith (c # s) sub \<or> contains s sub)"

text \<open>
  \<open>df.select_dtypes(include=[np.number]).columns\<close>: a column counts as numeric when every
  cell is a float or missing; the \<open>date\<close> column holds timestamps and is never numeric.
\<close>

definition numeric_cols :: "frame \<Rightarrow> frame" where
  "numeric_cols df = filter (\<lambda>(c, s). c \<noteq> ''date'' \<and> is_numeric s) df"

text \<open>
  \<open>aggregate_world_energy\<close> and \<open>aggregate_renewables\<close> differ in the prefix only:
  \<open>df.groupby("date")[numeric_cols].sum().rename(...).reset_index()\<close>. The groups are the
  distinct dates in ascending order (rows without a date belong to no group), and the sum
  of a group skips missing values.
\<close>

definition group_keys :: "series \<Rightarrow> (int \<times> nat) list" where
  "group_keys d = sort (remdups (map stamp_key (filter is_stamp d)))"

definition group_sum :: "series \<Rightarrow> series \<Rightarrow> int \<times> nat \<Rightarrow> cell" where
  "group_sum d s k =
     Num (sum_list (observed (map (\<lambda>i. s ! i)
            (filter (\<lambda>i. is_stamp (d ! i) \<and> stamp_key (d ! i) = k) [0..<length d]))))"

definition aggregate :: "string \<Rightarrow> frame \<Rightarrow> error + frame" where
  "aggregate prefix df =
     (case getcol df ''date'' of
        None \<Rightarrow> Inl (KeyError ''date'')
      | Some d \<Rightarrow>
          Inr ((''date'', map (\<lambda>(m, off). Stamp m off) (group_keys d)) #
               map (\<lambda>(c, s). (prefix @ c, map (group_sum d s) (group_keys d))) (numeric_cols df)))"

definition aggregate_world_energy :: "frame \<Rightarrow> error + frame" where
  "aggregate_world_energy df = aggregate ''world_'' df"

definition aggregate_renewables :: "frame \<Rightarrow> error + frame" where
  "aggregate_renewables df = aggregate ''renewables_'' df"

text \<open>
  \<open>prepare_saudi_production\<close>: keep the rows whose indicator mentions "total", take the
  column \<open>value\<close> (or else the first numeric column other than \<open>year\<close> and
  \<open>production_indicator\<close>) as \<open>saudi_production\<close>, and drop rows that repeat an earlier date.
\<close>

definition mentions_total :: "cell \<Rightarrow> bool" where
  "mentions_total c = (case c of Str t \<Rightarrow> contains (lower t) ''total'' | _ \<Rightarrow> False)"

definition filter_total :: "frame \<Rightarrow> frame" where
  "filter_total df =
     (case find (\<lambda>c. c \<in> set (columns df))
             [''production_indicator'', ''Production Indicator'', ''production indicator''] of
        None \<Rightarrow> df
      | Some indicator_col \<Rightarrow>
          (case getcol df indicator_col of
             None \<Rightarrow> df
           | Some ind \<Rightarrow>
               if indicator_col \<noteq> [] \<and> list_ex (\<lambda>c. c \<noteq> NaN) ind
               then filter_rows (\<lambda>i. mentions_total (ind ! i)) df else df))"

definition drop_duplicates :: "string \<Rightarrow> frame \<Rightarrow> error + frame" where
  "drop_duplicates key df =
     (case getcol df key of
        None \<Rightarrow> Inl (KeyError key)
      | Some d \<Rightarrow> Inr (filter_rows (\<lambda>i. d ! i \<notin> set (take i d)) df))"

definition prepare_saudi_production :: "frame \<Rightarrow> error + frame" where
  "prepare_saudi_production df0 =
     (let df = filter_total df0 in
      case (if ''value'' \<in> set (columns df) then Some ''value''
            else (case filter (\<lambda>c. c \<noteq> ''year'' \<and> c \<noteq> ''production_indicator'')
                         (columns (numeric_cols df)) of
                    [] \<Rightarrow> None
                  | c # cs \<Rightarrow> Some c)) of
        None \<Rightarrow> Inl (ValueError ''No numeric production column found in Saudi dataset'')
      | Some prod_col \<Rightarrow>
          (case select_columns df [''date'', prod_col] of
             Inl e \<Rightarrow> Inl e
           | Inr sel \<Rightarrow>
               drop_duplicates ''date''
                 (map (\<lambda>(c, s). (if c = prod_col then ''saudi_production'' else c, s)) sel)))"

text \<open>
  \<open>prepare_brent\<close>: the date column is the first whose lower-cased name contains "date" or
  "time", else the first column; the price is the first numeric column; the result is the
  monthly mean of the price.
\<close>

definition prepare_brent :: "frame \<Rightarrow> error + frame" where
  "prepare_brent df0 =
     (case (case find (\<lambda>c. contains (lower c) ''date'' \<or> contains (lower c) ''time'') (columns df0) of
              Some c \<Rightarrow> Some c
            | None \<Rightarrow> (case columns df0 of [] \<Rightarrow> None | c # cs \<Rightarrow> Some c)) of
        None \<Rightarrow> Inl IndexError
      | Some date_col \<Rightarrow>
          (case getcol df0 date_col of
             None \<Rightarrow> Inl (KeyError date_col)
           | Some d \<Rightarrow>
               if \<not> list_all (\<lambda>c. is_stamp c \<or> c = NaN) d then Inl (ValueError ''to_datetime'')
               else
                 (let df = setcol ''date'' d df0 in
                  case columns (numeric_cols df) of
                    [] \<Rightarrow> Inl (ValueError ''No numeric price column found in Brent dataset'')
                  | price_col # cs \<Rightarrow>
                      (case select_columns df [''date'', price_col] of
                         Inl e \<Rightarrow> Inl e
                       | Inr sel \<Rightarrow>
                           resample_to_month_start
                             (map (\<lambda>(c, s). (if c = price_col then ''brent_price'' else c, s)) sel)
                             ''date'' [''brent_price''] ''mean''))))"

text \<open>
  \<open>left.merge(right, on="date", how="left")\<close>: every row of the left frame in order, once
  for each row of the right frame with the same date, or once with the right columns
  missing when there is none. A column name other than \<open>date\<close> that both frames have gets
  the suffixes \<open>_x\<close> and \<open>_y\<close>.
\<close>

definition merge_pairs :: "series \<Rightarrow> series \<Rightarrow> (nat \<times> nat option) list" where
  "merge_pairs dl dr =
     List.concat
       (map (\<lambda>i. case filter (\<lambda>j. dr ! j = dl ! i) [0..<length dr] of
                   [] \<Rightarrow> [(i, None)]
                 | j # js \<Rightarrow> map (\<lambda>j'. (i, Some j')) (j # js))
          [0..<length dl])"

definition merge_left :: "frame \<Rightarrow> frame \<Rightarrow> error + frame" where
  "merge_left l r =
     (case getcol l ''date'' of
        None \<Rightarrow> Inl (KeyError ''date'')
      | Some dl \<Rightarrow>
          (case getcol r ''date'' of
             None \<Rightarrow> Inl (KeyError ''date'')
           | Some dr \<Rightarrow>
               (let pairs = merge_pairs dl dr;
                    both = filter (\<lambda>c. c \<noteq> ''date'' \<and> c \<in> set (columns r)) (columns l)
                in Inr (map (\<lambda>(c, s). (if c \<in> set both then c @ ''_x'' else c,
                                         map (\<lambda>(i, j). s ! i) pairs)) l @
                        map (\<lambda>(c, s). (if c \<in> set both then c @ ''_y'' else c,
                                         map (\<lambda>(i, j). case j of None \<Rightarrow> NaN | Some j' \<Rightarrow> s ! j') pairs))
                          (filter (\<lambda>(c, s). c \<noteq> ''date'') r)))))"

text \<open>\<open>df.ffill()\<close>: in every column a missing cell takes the last value present above it.\<close>

fun ffill_from :: "cell \<Rightarrow> series \<Rightarrow> series" where
  "ffill_from prev [] = []"
| "ffill_from prev (c # cs) = (if c = NaN then prev # ffill_from prev cs else c # ffill_from c cs)"

definition ffill :: "frame \<Rightarrow> frame" where
  "ffill df = map (\<lambda>(c, s). (c, ffill_from NaN s)) df"

text \<open>
  The sources as \<open>build_features\<close> receives them from the loaders and the cleaning functions,
  each either a frame or the exception that loading or cleaning raised: the cleaned world
  energy and renewables tables, the Saudi production table after the indicator filter of
  line 152 and \<open>clean_saudi_crude\<close>, and the Brent sheet as loaded.
\<close>

record sources =
  world_clean :: "error + frame"
  renew_clean :: "error + frame"
  saudi_clean :: "error + frame"
  brent_loaded :: "error + frame"

datatype log_entry = Info string | Warning string error

record build_result =
  outcome :: "error + frame"
  messages :: "log_entry list"
  saved :: "frame option"

definition and_then :: "error + 'a \<Rightarrow> ('a \<Rightarrow> error + 'b) \<Rightarrow> error + 'b" where
  "and_then r f = (case r of Inl e \<Rightarrow> Inl e | Inr x \<Rightarrow> f x)"

text \<open>Lines 140 to 156: the three sources that must load, in the order of the code.\<close>

definition required_sources :: "sources \<Rightarrow> error + (frame \<times> frame \<times> frame)" where
  "required_sources src =
     and_then (and_then (world_clean src) aggregate_world_energy) (\<lambda>world_df.
     and_then (and_then (renew_clean src) aggregate_renewables) (\<lambda>renew_df.
     and_then (and_then (and_then (saudi_clean src) prepare_saudi_production)
                 (\<lambda>df. resample_to_month_start df ''date'' [''saudi_production''] ''ffill''))
       (\<lambda>saudi_df. Inr (world_df, renew_df, saudi_df))))"

text \<open>Lines 159 to 166: the body of the \<open>try\<close> block and the body of the \<open>except\<close> clause.\<close>

definition load_brent :: "sources \<Rightarrow> error + frame" where
  "load_brent src = and_then (brent_loaded src) prepare_brent"

definition placeholder_brent :: "frame \<Rightarrow> error + frame" where
  "placeholder_brent saudi_df =
     and_then (select_columns saudi_df [''date''])
       (\<lambda>brent_df. Inr (setcol ''brent_price'' (replicate (nrows brent_df) (Num 0)) brent_df))"

text \<open>Lines 168 to 188: merge, sort, forward fill, derive, drop incomplete rows.\<close>

definition merge_and_derive :: "frame \<Rightarrow> frame \<Rightarrow> frame \<Rightarrow> frame \<Rightarrow> error + frame" where
  "merge_and_derive saudi_df brent_df renew_df world_df =
     and_then (merge_left saudi_df brent_df) (\<lambda>df1.
     and_then (merge_left df1 renew_df) (\<lambda>df2.
     and_then (merge_left df2 world_df) (\<lambda>df3.
     and_then (sort_values df3 ''date'') (\<lambda>df4.
     and_then (feature_step (ffill df4)) (\<lambda>df5. Inr (dropna df5))))))"

definition build_features :: "sources \<Rightarrow> build_result" where
  "build_features src =
     (case required_sources src of
        Inl e \<Rightarrow> \<lparr>outcome = Inl e, messages = [Info ''Building feature matrix...''], saved = None\<rparr>
      | Inr (world_df, renew_df, saudi_df) \<Rightarrow>
          (let (brent, warnings) =
                 (case load_brent src of
                    Inr brent_df \<Rightarrow> (Inr brent_df, [])
                  | Inl exc \<Rightarrow>
                      (placeholder_brent saudi_df,
                       [Warning ''Could not load Brent data. Using placeholder zeros.'' exc]))
           in case and_then brent (\<lambda>brent_df. merge_and_derive saudi_df brent_df renew_df world_df) of
                Inl e \<Rightarrow>
                  \<lparr>outcome = Inl e,
                   messages = Info ''Building feature matrix...'' # warnings, saved = None\<rparr>
              | Inr df \<Rightarrow>
                  \<lparr>outcome = Inr df,
                   messages = Info ''Building feature matrix...'' # warnings @ [Info ''Saved features''],
                   saved = Some df\<rparr>))"

section \<open>The prediction endpoint (api/main.py, api/schemas.py)\<close>

text \<open>
  \<open>PredictRequest\<close> (api/schemas.py, lines 9 to 18). The schema declares two fields:
  \<open>dates: List[str] = Field(..., min_length=1)\<close>, required and with a least length, and
  \<open>scenario: Optional[Dict[str, List[float]]] = Field(default=None)\<close>, optional and without
  a constraint. The body of a request may lack either field; an object of the class, which
  is what the handler receives, has both.
\<close>

record field_info =
  required :: bool
  min_length :: "nat option"

definition dates_field :: field_info where
  "dates_field = \<lparr>required = True, min_length = Some 1\<rparr>"

definition scenario_field :: field_info where
  "scenario_field = \<lparr>required = False, min_length = None\<rparr>"

record request_body =
  body_dates :: "string list option"
  body_scenario :: "scenario option"

record predict_request =
  req_dates :: "string list"
  req_scenario :: "scenario option"

text \<open>
  The collaborators of the handler: \<open>datetime.fromisoformat\<close> (does the string parse), the
  constructor \<open>Forecaster(horizon)\<close>, which loads the model or raises, and
  \<open>Forecaster.predict\<close>, which returns the predictions or raises. What the handler does with
  them is recorded as a trace of events.
\<close>

record 'm collaborators =
  fromisoformat_ok :: "string \<Rightarrow> bool"
  new_forecaster :: "nat \<Rightarrow> string + 'm"
  forecaster_predict :: "'m \<Rightarrow> string list \<Rightarrow> scenario option \<Rightarrow> string + real list"

datatype event = LoadModel nat | ModelPredict | LogException

datatype exn = HTTPException nat string | Failure string

datatype response = PredictResponse "real list" | ErrorResponse nat string

definition status_code :: "response \<Rightarrow> nat" where
  "status_code r = (case r of PredictResponse ps \<Rightarrow> 200 | ErrorResponse code detail \<Rightarrow> code)"

definition exn_str :: "exn \<Rightarrow> string" where
  "exn_str e = (case e of HTTPException code detail \<Rightarrow> str_nat code @ '': '' @ detail | Failure msg \<Rightarrow> msg)"

text \<open>The body of the \<open>try\<close> block of \<open>predict\<close>, lines 52 to 61, with the horizon fixed to 1.\<close>

definition predict_body :: "'m collaborators \<Rightarrow> predict_request \<Rightarrow> (exn + real list) \<times> event list" where
  "predict_body env req =
     (if req_dates req = [] then
        (Inl (HTTPException 400 ''At least one date must be provided.''), [])
      else if \<not> fromisoformat_ok env (hd (req_dates req)) then
        (Inl (Failure ''Invalid isoformat string''), [])
      else
        (case new_forecaster env 1 of
           Inl msg \<Rightarrow> (Inl (Failure msg), [LoadModel 1])
         | Inr fc \<Rightarrow>
             (case forecaster_predict env fc (req_dates req) (req_scenario req) of
                Inl msg \<Rightarrow> (Inl (Failure msg), [LoadModel 1, ModelPredict])
              | Inr ps \<Rightarrow> (Inr ps, [LoadModel 1, ModelPredict]))))"

text \<open>
  The handler: \<open>except Exception\<close> catches whatever the body raised, the \<open>HTTPException\<close>
  of the body included, logs it and answers with status 500.
\<close>

definition predict_handler :: "'m collaborators \<Rightarrow> predict_request \<Rightarrow> response \<times> event list" where
  "predict_handler env req =
     (case predict_body env req of
        (Inr ps, trace) \<Rightarrow> (PredictResponse ps, trace)
      | (Inl e, trace) \<Rightarrow> (ErrorResponse 500 (exn_str e), trace @ [LogException]))"

text \<open>
  Modelled from the spec: the validation of a request body against the declared schema and
  the dispatch of the route (\<open>@app.post("/predict")\<close> on a function whose parameter is
  \<open>req: PredictRequest\<close>) are carried out by the web framework, FastAPI with pydantic, whose
  code is not part of the sources; the sources hold only the declarations above and the
  handler. The spec asks that the endpoint "must reject empty dates with a client error",
  with "no model invocation attempted". Accordingly a required field that is absent and a
  list shorter than its declared \<open>min_length\<close> are validation errors; a body with a
  validation error is answered with status 422, the framework's status for a body that fails
  validation, and the handler is not called; every other body reaches the handler as a
  \<open>PredictRequest\<close>.
\<close>

definition field_errors :: "field_info \<Rightarrow> 'a list option \<Rightarrow> string list" where
  "field_errors f v =
     (case v of
        None \<Rightarrow> if required f then [''Field required''] else []
      | Some xs \<Rightarrow>
          (case min_length f of
             None \<Rightarrow> []
           | Some m \<Rightarrow>
               if length xs < m
               then [''List should have at least '' @ str_nat m @ '' item after validation'']
               else []))"

definition validate_request :: "request_body \<Rightarrow> string list + predict_request" where
  "validate_request body =
     (case field_errors dates_field (body_dates body) of
        [] \<Rightarrow>
          Inr \<lparr>req_dates = (case body_dates body of None \<Rightarrow> [] | Some ds \<Rightarrow> ds),
               req_scenario = body_scenario body\<rparr>
      | errs \<Rightarrow> Inl errs)"

definition predict_route :: "'m collaborators \<Rightarrow> request_body \<Rightarrow> response \<times> event list" where
  "predict_route env body =
     (case validate_request body of
        Inl errs \<Rightarrow> (ErrorResponse 422 (List.concat errs), [])
      | Inr req \<Rightarrow> predict_handler env req)"

section \<open>Notions used in the statements\<close>

text \<open>
  The eleven columns that one pass of the loop body writes for a variable \<open>c\<close> whose series
  is \<open>s\<close>, in the order of writing, and their names.
\<close>

definition derived :: "string \<Rightarrow> series \<Rightarrow> (string \<times> series) list" where
  "derived c s =
     map (\<lambda>k. (lag_name c k, shift k s)) [1, 2, 3, 6, 12] @
     List.concat
       (map (\<lambda>w. map (\<lambda>st. (roll_name c st w, rolling (nat w) (stat_value st) s)) [''mean'', ''std''])
          [3, 6, 12])"

definition derived_names :: "string \<Rightarrow> string list" where
  "derived_names c = map fst (derived c [])"

definition write_cols :: "(string \<times> series) list \<Rightarrow> frame \<Rightarrow> frame" where
  "write_cols l df = fold (\<lambda>(n, t). setcol n t) l df"

text \<open>
  The variables of the persisted matrix are the target and every other column of the
  matrix except the date. Such a variable is a base variable when its name is not the name
  of a derived column of any variable of the matrix; the base part of a frame is its date
  and its base variables.
\<close>

definition is_derived_of :: "string list \<Rightarrow> string \<Rightarrow> bool" where
  "is_derived_of vars c = list_ex (\<lambda>v. c \<in> set (derived_names v)) vars"

definition matrix_variables :: "frame \<Rightarrow> string list" where
  "matrix_variables features =
     target_col # filter (\<lambda>c. c \<noteq> ''date'' \<and> c \<noteq> target_col) (columns features)"

definition base_variables :: "frame \<Rightarrow> string list" where
  "base_variables features =
     filter (\<lambda>c. \<not> is_derived_of (matrix_variables features) c) (matrix_variables features)"

text \<open>A date column is strictly ascending: timestamps only, each later than the one before.\<close>

definition ascending_dates :: "series \<Rightarrow> bool" where
  "ascending_dates d \<longleftrightarrow> list_all is_stamp d \<and> sorted_wrt (<) (map stamp_key d)"

section \<open>Example inputs\<close>

definition ex_values :: frame where
  "ex_values = [(''value'', [Num 10, Num 20, Num 30, Num 40, Num 50])]"

definition ex_template :: row where
  "ex_template = [(''date'', Stamp 12 0), (''saudi_production'', Num 13), (''brent_price'', Num 50)]"

definition ex_scenario :: scenario where
  "ex_scenario = [(''brent_price'', [100, 200]), (''gold_price'', [1, 2]), (''saudi_production'', [7])]"

definition derived_suffixes :: "string list" where
  "derived_suffixes =
     [''_lag_1'', ''_lag_2'', ''_lag_3'', ''_lag_6'', ''_lag_12'',
      ''_roll_mean_3'', ''_roll_std_3'', ''_roll_mean_6'', ''_roll_std_6'',
      ''_roll_mean_12'', ''_roll_std_12'']"

definition ex_history :: frame where
  "ex_history =
     [(''date'', [Stamp 0 0, Stamp 1 0]),
      (''saudi_production'', [Num 1, Num 2]),
      (''saudi_production_lag_1'', [Num 77, Num 88])]"

definition ex_history_exog :: frame where
  "ex_history_exog =
     [(''date'', [Stamp 0 0, Stamp 1 0]),
      (''saudi_production'', [Num 1, Num 2]),
      (''brent_price'', [Num 50, Num 60]),
      (''brent_price_lag_1'', [Num 77, Num 88])]"

definition ex_exog_scenario :: scenario where
  "ex_exog_scenario = [(''brent_price'', [70, 80])]"

definition ex_combined_exog :: frame where
  "ex_combined_exog =
     [(''date'', [Stamp 0 0, Stamp 1 0, Stamp 2 0, Stamp 3 0]),
      (''saudi_production'', [Num 1, Num 2, Num 2, Num 2]),
      (''brent_price'', [Num 50, Num 60, Num 70, Num 80]),
      (''brent_price_lag_1'', [Num 77, Num 88, Num 88, Num 88])]"

definition ex_target_scenario :: scenario where
  "ex_target_scenario = [(''saudi_production'', [3])]"

definition ex_combined_target :: frame where
  "ex_combined_target =
     [(''date'', [Stamp 0 0, Stamp 1 0, Stamp 2 0, Stamp 3 0]),
      (''saudi_production'', [Num 1, Num 2, Num 3, Num 2]),
      (''saudi_production_lag_1'', [Num 77, Num 88, Num 88, Num 88])]"

definition ex_features :: frame where
  "ex_features =
     [(''date'', map (\<lambda>m. Stamp m 0) [0, 1, 2, 3, 4, 5, 6, 7, 8, 9, 10, 11, 12]),
      (''saudi_production'', map Num [1, 2, 3, 4, 5, 6, 7, 8, 9, 10, 11, 12, 13]),
      (''brent_price'', map Num [50, 50, 50, 50, 50, 50, 50, 50, 50, 50, 50, 50, 50])]"

definition ex_forecaster :: forecaster where
  "ex_forecaster =
     \<lparr>model = (\<lambda>xs. case xs of [Num x] \<Rightarrow> x | _ \<Rightarrow> 0), feature_columns = Some [''brent_price'']\<rparr>"

definition ex_collaborators :: "unit collaborators" where
  "ex_collaborators =
     \<lparr>fromisoformat_ok = (\<lambda>s. True), new_forecaster = (\<lambda>h. Inr ()),
      forecaster_predict = (\<lambda>fc ds sc. Inr (map (\<lambda>d. 0) ds))\<rparr>"

definition ex_empty_body :: request_body where
  "ex_empty_body = \<lparr>body_dates = Some [], body_scenario = None\<rparr>"



section \<open>Properties of the data model\<close>

lemma length_shift [simp]: "length (shift k s) = length s"
  by (auto simp: shift_def Let_def)

lemma nth_shift:
  "i < length s \<Longrightarrow>
   shift k s ! i = (if k \<le> int i \<and> int i - k < int (length s) then s ! nat (int i - k) else NaN)"
  by (auto simp: shift_def Let_def nth_append min_def nat_diff_distrib nat_add_distrib
      intro!: arg_cong [where f = "\<lambda>j. s ! j"])

lemma of_char_digit: "d < 10 \<Longrightarrow> of_char (digit_char d) = (48 + d :: nat)"
proof -
  assume "d < 10"
  then consider "d = 0" | "d = 1" | "d = 2" | "d = 3" | "d = 4" | "d = 5" | "d = 6" | "d = 7" | "d = 8" | "d = 9"
    by atomize_elim arith
  then show ?thesis by cases (simp_all add: digit_char_def)
qed

lemma digit_char_inj: "d < 10 \<Longrightarrow> e < 10 \<Longrightarrow> digit_char d = digit_char e \<Longrightarrow> d = e"
  by (metis of_char_digit add_left_cancel)

lemma digit_char_not_minus: "d < 10 \<Longrightarrow> digit_char d \<noteq> CHR ''-''"
  using of_char_digit [of d] by (auto simp del: of_char_digit)

lemma str_nat_nonempty: "str_nat n \<noteq> []"
  by (subst str_nat.simps) simp

lemma str_nat_length_ge2: "10 \<le> n \<Longrightarrow> 2 \<le> length (str_nat n)"
  using str_nat_nonempty [of "n div 10"]
  by (subst str_nat.simps) (cases "str_nat (n div 10)"; simp)

lemma str_nat_inj: "str_nat n = str_nat m \<Longrightarrow> n = m"
proof (induction n arbitrary: m rule: str_nat.induct)
  case (1 n)
  show ?case
  proof (cases "n < 10")
    case True
    then have sn: "str_nat n = [digit_char n]" by (subst str_nat.simps) simp
    show ?thesis
    proof (cases "m < 10")
      case True
      then have "str_nat m = [digit_char m]" by (subst str_nat.simps) simp
      with sn "1.prems" \<open>n < 10\<close> True show ?thesis by (auto dest: digit_char_inj)
    next
      case False
      then have "2 \<le> length (str_nat m)" by (simp add: str_nat_length_ge2)
      with sn "1.prems" show ?thesis by simp
    qed
  next
    case False
    then have sn: "str_nat n = str_nat (n div 10) @ [digit_char (n mod 10)]"
      by (subst str_nat.simps) simp
    show ?thesis
    proof (cases "m < 10")
      case True
      then have "str_nat m = [digit_char m]" by (subst str_nat.simps) simp
      moreover from False have "2 \<le> length (str_nat n)" by (simp add: str_nat_length_ge2)
      ultimately show ?thesis using "1.prems" by simp
    next
      case m: False
      then have sm: "str_nat m = str_nat (m div 10) @ [digit_char (m mod 10)]"
        by (subst str_nat.simps) simp
      from sn sm "1.prems" have a: "str_nat (n div 10) = str_nat (m div 10)"
        and b: "digit_char (n mod 10) = digit_char (m mod 10)" by simp_all
      from "1.IH" [OF False a] have "n div 10 = m div 10" .
      moreover from b have "n mod 10 = m mod 10" by (intro digit_char_inj) simp_all
      ultimately show ?thesis by (metis div_mult_mod_eq)
    qed
  qed
qed

lemma str_nat_hd_not_minus: "hd (str_nat n) \<noteq> CHR ''-''"
proof (induction n rule: str_nat.induct)
  case (1 n)
  show ?case
  proof (cases "n < 10")
    case True
    then show ?thesis by (subst str_nat.simps) (simp add: digit_char_not_minus)
  next
    case False
    with 1 str_nat_nonempty [of "n div 10"] show ?thesis
      by (subst str_nat.simps) (simp add: hd_append)
  qed
qed

lemma str_int_inj: "str_int j = str_int k \<Longrightarrow> j = k"
  using str_nat_hd_not_minus [of "nat j"] str_nat_hd_not_minus [of "nat k"]
  by (auto simp: str_int_def split: if_splits dest!: str_nat_inj dest: arg_cong [where f = hd])

lemma lag_name_inj [simp]: "lag_name c j = lag_name c k \<longleftrightarrow> j = k"
  by (auto simp: lag_name_def dest: str_int_inj)

lemma lag_name_neq [simp]: "lag_name c k \<noteq> c" "c \<noteq> lag_name c k"
  by (simp_all add: lag_name_def)

lemma getcol_setcol: "getcol (setcol c s df) x = (if x = c then Some s else getcol df x)"
  by (simp add: getcol_def setcol_def update_conv')

lemma columns_setcol:
  "columns (setcol c s df) = (if c \<in> set (columns df) then columns df else columns df @ [c])"
  by (induction df) (auto simp: columns_def setcol_def)

lemma getcol_None_iff: "getcol df c = None \<longleftrightarrow> c \<notin> set (columns df)"
  by (simp add: getcol_def columns_def map_of_eq_None_iff)

lemma set_update_cases: "p \<in> set (AList.update c s df) \<Longrightarrow> p = (c, s) \<or> p \<in> set df"
  by (induction df) (auto split: if_splits)

lemma rect_setcol:
  assumes "rect df" "length s = nrows df"
  shows "rect (setcol c s df)" "nrows (setcol c s df) = nrows df"
proof -
  have n: "nrows (setcol c s df) = nrows df"
    using assms(2) by (cases df) (auto simp: nrows_def setcol_def)
  have "\<forall>(x, t) \<in> set (AList.update c s df). length t = nrows df"
    using assms by (auto simp: rect_def list_all_iff dest!: set_update_cases)
  with n show "rect (setcol c s df)"
    by (simp add: rect_def list_all_iff setcol_def)
  show "nrows (setcol c s df) = nrows df" by (rule n)
qed

lemma distinct_setcol: "distinct (columns df) \<Longrightarrow> distinct (columns (setcol c s df))"
  by (simp add: columns_def setcol_def distinct_update)

lemma rect_getcol_length: "rect df \<Longrightarrow> getcol df c = Some s \<Longrightarrow> length s = nrows df"
  by (auto simp: rect_def getcol_def list_all_iff dest!: map_of_SomeD)

lemma wf_frame_getcol_length: "wf_frame df \<Longrightarrow> getcol df c = Some s \<Longrightarrow> length s = nrows df"
  by (simp add: wf_frame_def rect_getcol_length)

lemma add_lag_features_cols:
  assumes "getcol df c = Some s"
  shows "\<exists>df'. add_lag_features df c lags = Inr df' \<and>
           (\<forall>k \<in> set lags. getcol df' (lag_name c k) = Some (shift k s)) \<and>
           (\<forall>x. x \<notin> lag_name c ` set lags \<longrightarrow> getcol df' x = getcol df x)"
  using assms
proof (induction lags arbitrary: df)
  case Nil
  then show ?case by simp
next
  case (Cons k ks)
  let ?df1 = "setcol (lag_name c k) (shift k s) df"
  have "getcol ?df1 c = Some s" using Cons.prems by (simp add: getcol_setcol)
  from Cons.IH [OF this] obtain df' where
    r: "add_lag_features ?df1 c ks = Inr df'" and
    a: "\<forall>j \<in> set ks. getcol df' (lag_name c j) = Some (shift j s)" and
    b: "\<forall>x. x \<notin> lag_name c ` set ks \<longrightarrow> getcol df' x = getcol ?df1 x" by blast
  have "getcol df' (lag_name c k) = Some (shift k s)"
  proof (cases "k \<in> set ks")
    case True with a show ?thesis by blast
  next
    case False
    then have "lag_name c k \<notin> lag_name c ` set ks" by auto
    with b show ?thesis by (simp add: getcol_setcol)
  qed
  with r a b Cons.prems show ?case by (auto simp: getcol_setcol)
qed

lemma add_lag_features_columns:
  "add_lag_features df c lags = Inr df' \<Longrightarrow>
   \<exists>new. columns df' = columns df @ new \<and> set new = lag_name c ` set lags - set (columns df)"
proof (induction lags arbitrary: df)
  case Nil
  then show ?case by simp
next
  case (Cons k ks)
  then obtain s where s: "getcol df c = Some s" by (auto split: option.splits)
  let ?df1 = "setcol (lag_name c k) (shift k s) df"
  from Cons.prems s have "add_lag_features ?df1 c ks = Inr df'" by simp
  from Cons.IH [OF this] obtain new where
    n: "columns df' = columns ?df1 @ new" "set new = lag_name c ` set ks - set (columns ?df1)" by blast
  show ?case
  proof (cases "lag_name c k \<in> set (columns df)")
    case True
    with n show ?thesis by (auto simp: columns_setcol)
  next
    case False
    with n have "columns df' = columns df @ (lag_name c k # new)" by (simp add: columns_setcol)
    moreover from False n have "set (lag_name c k # new) = lag_name c ` set (k # ks) - set (columns df)"
      by (auto simp: columns_setcol)
    ultimately show ?thesis by blast
  qed
qed

lemma add_lag_features_rect:
  "rect df \<Longrightarrow> add_lag_features df c lags = Inr df' \<Longrightarrow> rect df' \<and> nrows df' = nrows df"
proof (induction lags arbitrary: df)
  case Nil
  then show ?case by simp
next
  case (Cons k ks)
  then obtain s where s: "getcol df c = Some s" by (auto split: option.splits)
  let ?df1 = "setcol (lag_name c k) (shift k s) df"
  from Cons.prems s have r: "add_lag_features ?df1 c ks = Inr df'" by simp
  have l: "length (shift k s) = nrows df" using Cons.prems(1) s by (simp add: rect_getcol_length)
  from Cons.IH [OF rect_setcol(1) [OF Cons.prems(1) l] r] rect_setcol(2) [OF Cons.prems(1) l]
  show ?case by simp
qed

lemma add_lag_features_distinct:
  "distinct (columns df) \<Longrightarrow> add_lag_features df c lags = Inr df' \<Longrightarrow> distinct (columns df')"
proof (induction lags arbitrary: df)
  case Nil
  then show ?case by simp
next
  case (Cons k ks)
  then obtain s where s: "getcol df c = Some s" by (auto split: option.splits)
  from Cons.prems s have "add_lag_features (setcol (lag_name c k) (shift k s) df) c ks = Inr df'"
    by simp
  from Cons.IH [OF distinct_setcol [OF Cons.prems(1)] this] show ?case .
qed

lemma add_lag_features_wf:
  "wf_frame df \<Longrightarrow> add_lag_features df c lags = Inr df' \<Longrightarrow> wf_frame df' \<and> nrows df' = nrows df"
  using add_lag_features_rect [of df c lags df'] add_lag_features_distinct [of df c lags df']
  by (simp add: wf_frame_def)

lemmas eval_simps = getcol_def setcol_def lag_name_def str_int_def str_nat.simps digit_char_def
  shift_def wf_frame_def rect_def columns_def nrows_def

section \<open>Lag features\<close>

text \<open>
  C4. Given a table and one of its columns \<open>col\<close>, \<open>add_lag_features\<close> succeeds and, for every
  \<open>k\<close> in \<open>lags\<close>, the result has a column \<open>col_lag_k\<close> whose row \<open>i\<close> holds row \<open>i - k\<close> of
  \<open>col\<close> and is missing when that row does not exist (for \<open>i < k\<close>; for a negative \<open>k\<close>, past
  the end). The new columns come after the old ones, every other column is the one of the
  input, and the number of rows is unchanged.
\<close>

theorem add_lag_features_shifts:
  assumes "wf_frame df" and "getcol df col = Some s"
  shows "\<exists>df'. add_lag_features df col lags = Inr df' \<and> wf_frame df' \<and> nrows df' = nrows df \<and>
     (\<exists>new. columns df' = columns df @ new \<and> set new = lag_name col ` set lags - set (columns df)) \<and>
     (\<forall>k \<in> set lags. \<exists>t. getcol df' (lag_name col k) = Some t \<and> length t = length s \<and>
         (\<forall>i < length s. t ! i =
            (if k \<le> int i \<and> int i - k < int (length s) then s ! nat (int i - k) else NaN))) \<and>
     (\<forall>c. c \<notin> lag_name col ` set lags \<longrightarrow> getcol df' c = getcol df c)"
proof -
  from add_lag_features_cols [OF assms(2), of lags] obtain df' where
    r: "add_lag_features df col lags = Inr df'" and
    a: "\<forall>k \<in> set lags. getcol df' (lag_name col k) = Some (shift k s)" and
    b: "\<forall>x. x \<notin> lag_name col ` set lags \<longrightarrow> getcol df' x = getcol df x" by blast
  from add_lag_features_wf [OF assms(1) r] have w: "wf_frame df'" "nrows df' = nrows df" by simp_all
  from add_lag_features_columns [OF r] have c:
    "\<exists>new. columns df' = columns df @ new \<and> set new = lag_name col ` set lags - set (columns df)" .
  have "\<forall>k \<in> set lags. \<exists>t. getcol df' (lag_name col k) = Some t \<and> length t = length s \<and>
         (\<forall>i < length s. t ! i =
            (if k \<le> int i \<and> int i - k < int (length s) then s ! nat (int i - k) else NaN))"
    using a by (auto simp: nth_shift)
  with r w c b show ?thesis by blast
qed

theorem add_lag_features_shifts_witness:
  "wf_frame ex_values \<and> getcol ex_values ''value'' = Some [Num 10, Num 20, Num 30, Num 40, Num 50] \<and>
   add_lag_features ex_values ''value'' [1, 2] =
     Inr [(''value'', [Num 10, Num 20, Num 30, Num 40, Num 50]),
          (''value_lag_1'', [NaN, Num 10, Num 20, Num 30, Num 40]),
          (''value_lag_2'', [NaN, NaN, Num 10, Num 20, Num 30])]"
proof -
  have w: "wf_frame ex_values" by (simp add: ex_values_def eval_simps)
  have g: "getcol ex_values ''value'' = Some [Num 10, Num 20, Num 30, Num 40, Num 50]"
    by (simp add: ex_values_def eval_simps)
  from add_lag_features_shifts [OF w g, of "[1, 2]"] w g show ?thesis
    by (simp add: ex_values_def eval_simps)
qed

lemma roll_name_neq [simp]: "roll_name c st w \<noteq> c" "c \<noteq> roll_name c st w"
  by (simp_all add: roll_name_def)

lemma roll_name_inj:
  "st \<in> set supported_stats \<Longrightarrow> st' \<in> set supported_stats \<Longrightarrow>
   roll_name c st w = roll_name c st' w' \<longleftrightarrow> st = st' \<and> w = w'"
  by (auto simp: roll_name_def supported_stats_def dest: str_int_inj)

lemma length_rolling [simp]: "length (rolling w f s) = length s"
  by (simp add: rolling_def)

lemma rolling_stats_cols:
  assumes "getcol df c = Some s" "0 \<le> w" "is_numeric s" "set stats \<subseteq> set supported_stats"
  shows "\<exists>df'. rolling_stats df c w stats = Inr df' \<and>
           (\<forall>st \<in> set stats. getcol df' (roll_name c st w) = Some (rolling (nat w) (stat_value st) s)) \<and>
           (\<forall>x. x \<notin> (\<lambda>st. roll_name c st w) ` set stats \<longrightarrow> getcol df' x = getcol df x)"
  using assms
proof (induction stats arbitrary: df)
  case Nil
  then show ?case by simp
next
  case (Cons st sts)
  let ?df1 = "setcol (roll_name c st w) (rolling (nat w) (stat_value st) s) df"
  have g: "getcol ?df1 c = Some s" using Cons.prems by (simp add: getcol_setcol)
  from Cons.prems have sub: "set sts \<subseteq> set supported_stats" and st: "st \<in> set supported_stats" by auto
  from Cons.IH [OF g Cons.prems(2,3) sub] obtain df' where
    r: "rolling_stats ?df1 c w sts = Inr df'" and
    a: "\<forall>t \<in> set sts. getcol df' (roll_name c t w) = Some (rolling (nat w) (stat_value t) s)" and
    b: "\<forall>x. x \<notin> (\<lambda>t. roll_name c t w) ` set sts \<longrightarrow> getcol df' x = getcol ?df1 x" by blast
  have "getcol df' (roll_name c st w) = Some (rolling (nat w) (stat_value st) s)"
  proof (cases "st \<in> set sts")
    case True with a show ?thesis by blast
  next
    case False
    then have "roll_name c st w \<notin> (\<lambda>t. roll_name c t w) ` set sts"
      using st sub by (auto simp: roll_name_inj)
    with b show ?thesis by (simp add: getcol_setcol)
  qed
  moreover have "rolling_stats df c w (st # sts) = Inr df'"
    using r Cons.prems st by simp
  ultimately show ?case using a b by (auto simp: getcol_setcol)
qed

lemma rolling_windows_cols:
  assumes "getcol df c = Some s" "\<forall>w \<in> set ws. 0 \<le> w" "is_numeric s" "set stats \<subseteq> set supported_stats"
  shows "\<exists>df'. rolling_windows df c ws stats = Inr df' \<and>
           (\<forall>w \<in> set ws. \<forall>st \<in> set stats.
              getcol df' (roll_name c st w) = Some (rolling (nat w) (stat_value st) s)) \<and>
           (\<forall>x. x \<notin> (\<lambda>(st, w). roll_name c st w) ` (set stats \<times> set ws) \<longrightarrow> getcol df' x = getcol df x)"
  using assms
proof (induction ws arbitrary: df)
  case Nil
  then show ?case by simp
next
  case (Cons w ws)
  from Cons.prems have w0: "0 \<le> w" and ws0: "\<forall>w \<in> set ws. 0 \<le> w" by auto
  from rolling_stats_cols [OF Cons.prems(1) w0 Cons.prems(3,4)] obtain df1 where
    r1: "rolling_stats df c w stats = Inr df1" and
    a1: "\<forall>st \<in> set stats. getcol df1 (roll_name c st w) = Some (rolling (nat w) (stat_value st) s)" and
    b1: "\<forall>x. x \<notin> (\<lambda>st. roll_name c st w) ` set stats \<longrightarrow> getcol df1 x = getcol df x" by blast
  have "c \<notin> (\<lambda>st. roll_name c st w) ` set stats" by auto
  with b1 Cons.prems(1) have g: "getcol df1 c = Some s" by simp
  from Cons.IH [OF g ws0 Cons.prems(3,4)] obtain df' where
    r: "rolling_windows df1 c ws stats = Inr df'" and
    a: "\<forall>v \<in> set ws. \<forall>st \<in> set stats.
              getcol df' (roll_name c st v) = Some (rolling (nat v) (stat_value st) s)" and
    b: "\<forall>x. x \<notin> (\<lambda>(st, v). roll_name c st v) ` (set stats \<times> set ws) \<longrightarrow> getcol df' x = getcol df1 x"
    by blast
  have "\<forall>st \<in> set stats. getcol df' (roll_name c st w) = Some (rolling (nat w) (stat_value st) s)"
  proof
    fix st assume st: "st \<in> set stats"
    show "getcol df' (roll_name c st w) = Some (rolling (nat w) (stat_value st) s)"
    proof (cases "w \<in> set ws")
      case True with a st show ?thesis by blast
    next
      case False
      have "roll_name c st w \<notin> (\<lambda>(st, v). roll_name c st v) ` (set stats \<times> set ws)"
      proof
        assume "roll_name c st w \<in> (\<lambda>(st, v). roll_name c st v) ` (set stats \<times> set ws)"
        then obtain st' v where *: "st' \<in> set stats" "v \<in> set ws" "roll_name c st w = roll_name c st' v"
          by auto
        from st *(1) Cons.prems(4) have "st \<in> set supported_stats" "st' \<in> set supported_stats" by auto
        from roll_name_inj [OF this] *(3) have "w = v" by simp
        with *(2) False show False by simp
      qed
      with b a1 st show ?thesis by simp
    qed
  qed
  moreover have "\<forall>x. x \<notin> (\<lambda>(st, v). roll_name c st v) ` (set stats \<times> set (w # ws)) \<longrightarrow>
      getcol df' x = getcol df x"
  proof (intro allI impI)
    fix x assume x: "x \<notin> (\<lambda>(st, v). roll_name c st v) ` (set stats \<times> set (w # ws))"
    then have "x \<notin> (\<lambda>(st, v). roll_name c st v) ` (set stats \<times> set ws)"
      and "x \<notin> (\<lambda>st. roll_name c st w) ` set stats" by auto
    with b b1 show "getcol df' x = getcol df x" by simp
  qed
  moreover have "rolling_windows df c (w # ws) stats = Inr df'" using r1 r by simp
  ultimately show ?case using a by auto
qed

lemma nth_rolling:
  "i < length s \<Longrightarrow>
   rolling w f s ! i = (let xs = observed (window_at w s i) in if w \<le> length xs then f xs else NaN)"
  by (simp add: rolling_def)

lemma length_observed_le: "length (observed cs) \<le> length cs"
  by (induction cs rule: observed.induct) auto

lemma observed_map_Num [simp]: "observed (map Num xs) = xs"
  by (induction xs) auto

lemma length_observed_less: "c \<in> set cs \<Longrightarrow> \<forall>x. c \<noteq> Num x \<Longrightarrow> length (observed cs) < length cs"
proof (induction cs)
  case Nil
  then show ?case by simp
next
  case (Cons a cs)
  then show ?case using length_observed_le [of cs] by (cases a) auto
qed

lemma window_at_full:
  "i < length s \<Longrightarrow> w \<le> Suc i \<Longrightarrow> window_at w s i = map (\<lambda>j. s ! j) [Suc i - w..<Suc i]"
  by (auto simp: window_at_def list_eq_iff_nth_eq simp del: upt_Suc)

lemma length_window_at: "i < length s \<Longrightarrow> length (window_at w s i) = min w (Suc i)"
  by (auto simp: window_at_def)

lemma rolling_short: "i < length s \<Longrightarrow> Suc i < w \<Longrightarrow> rolling w f s ! i = NaN"
  using length_observed_le [of "window_at w s i"]
  by (simp add: nth_rolling Let_def length_window_at)

lemma rolling_full:
  "i < length s \<Longrightarrow> w \<le> Suc i \<Longrightarrow> map (\<lambda>j. s ! j) [Suc i - w..<Suc i] = map Num xs \<Longrightarrow>
   rolling w f s ! i = f xs"
proof -
  assume i: "i < length s" and w: "w \<le> Suc i" and m: "map (\<lambda>j. s ! j) [Suc i - w..<Suc i] = map Num xs"
  from arg_cong [OF m, of length] have "length xs = w" using w by (simp del: upt_Suc)
  then show ?thesis using i w m by (simp add: nth_rolling window_at_full)
qed

lemma rolling_missing:
  assumes "i < length s" "w \<le> Suc i" "j \<in> {Suc i - w..<Suc i}" "\<forall>x. s ! j \<noteq> Num x"
  shows "rolling w f s ! i = NaN"
proof -
  have "s ! j \<in> set (window_at w s i)" using assms by (auto simp: window_at_full simp del: upt_Suc)
  from length_observed_less [OF this assms(4)] length_window_at [OF assms(1), of w] assms(2)
  show ?thesis using assms(1) by (simp add: nth_rolling Let_def)
qed

section \<open>Rolling features\<close>

lemma rolling_stats_rect:
  "rect df \<Longrightarrow> rolling_stats df c w stats = Inr df' \<Longrightarrow> rect df' \<and> nrows df' = nrows df"
proof (induction stats arbitrary: df)
  case Nil
  then show ?case by simp
next
  case (Cons st sts)
  then obtain s where s: "getcol df c = Some s" by (auto split: option.splits)
  let ?df1 = "setcol (roll_name c st w) (rolling (nat w) (stat_value st) s) df"
  from Cons.prems s have r: "rolling_stats ?df1 c w sts = Inr df'" by (simp split: if_splits)
  have l: "length (rolling (nat w) (stat_value st) s) = nrows df"
    using Cons.prems(1) s by (simp add: rect_getcol_length)
  from Cons.IH [OF rect_setcol(1) [OF Cons.prems(1) l] r] rect_setcol(2) [OF Cons.prems(1) l]
  show ?case by simp
qed

lemma rolling_stats_distinct:
  "distinct (columns df) \<Longrightarrow> rolling_stats df c w stats = Inr df' \<Longrightarrow> distinct (columns df')"
proof (induction stats arbitrary: df)
  case Nil
  then show ?case by simp
next
  case (Cons st sts)
  then obtain s where s: "getcol df c = Some s" by (auto split: option.splits)
  from Cons.prems s have
    "rolling_stats (setcol (roll_name c st w) (rolling (nat w) (stat_value st) s) df) c w sts = Inr df'"
    by (simp split: if_splits)
  from Cons.IH [OF distinct_setcol [OF Cons.prems(1)] this] show ?case .
qed

lemma rolling_windows_rect:
  "rect df \<Longrightarrow> rolling_windows df c ws stats = Inr df' \<Longrightarrow> rect df' \<and> nrows df' = nrows df"
proof (induction ws arbitrary: df)
  case Nil
  then show ?case by simp
next
  case (Cons w ws)
  then obtain df1 where r1: "rolling_stats df c w stats = Inr df1"
    and r: "rolling_windows df1 c ws stats = Inr df'" by (auto split: sum.splits)
  from rolling_stats_rect [OF Cons.prems(1) r1] Cons.IH [OF _ r] show ?case by simp
qed

lemma rolling_windows_distinct:
  "distinct (columns df) \<Longrightarrow> rolling_windows df c ws stats = Inr df' \<Longrightarrow> distinct (columns df')"
proof (induction ws arbitrary: df)
  case Nil
  then show ?case by simp
next
  case (Cons w ws)
  then obtain df1 where r1: "rolling_stats df c w stats = Inr df1"
    and r: "rolling_windows df1 c ws stats = Inr df'" by (auto split: sum.splits)
  from Cons.IH [OF rolling_stats_distinct [OF Cons.prems(1) r1] r] show ?case .
qed

lemma rolling_windows_wf:
  "wf_frame df \<Longrightarrow> rolling_windows df c ws stats = Inr df' \<Longrightarrow> wf_frame df' \<and> nrows df' = nrows df"
  using rolling_windows_rect [of df c ws stats df'] rolling_windows_distinct [of df c ws stats df']
  by (simp add: wf_frame_def)

lemma rolling_stats_columns:
  "rolling_stats df c w stats = Inr df' \<Longrightarrow>
   \<exists>new. columns df' = columns df @ new \<and>
     set new = (\<lambda>st. roll_name c st w) ` set stats - set (columns df)"
proof (induction stats arbitrary: df)
  case Nil
  then show ?case by simp
next
  case (Cons st sts)
  then obtain s where s: "getcol df c = Some s" by (auto split: option.splits)
  let ?df1 = "setcol (roll_name c st w) (rolling (nat w) (stat_value st) s) df"
  from Cons.prems s have "rolling_stats ?df1 c w sts = Inr df'" by (simp split: if_splits)
  from Cons.IH [OF this] obtain new where
    n: "columns df' = columns ?df1 @ new"
       "set new = (\<lambda>st. roll_name c st w) ` set sts - set (columns ?df1)" by blast
  show ?case
  proof (cases "roll_name c st w \<in> set (columns df)")
    case True
    with n show ?thesis by (auto simp: columns_setcol)
  next
    case False
    with n have "columns df' = columns df @ (roll_name c st w # new)" by (simp add: columns_setcol)
    moreover from False n have
      "set (roll_name c st w # new) = (\<lambda>st. roll_name c st w) ` set (st # sts) - set (columns df)"
      by (auto simp: columns_setcol)
    ultimately show ?thesis by blast
  qed
qed

lemma rolling_windows_columns:
  "rolling_windows df c ws stats = Inr df' \<Longrightarrow>
   \<exists>new. columns df' = columns df @ new \<and>
     set new = (\<lambda>(st, w). roll_name c st w) ` (set stats \<times> set ws) - set (columns df)"
proof (induction ws arbitrary: df)
  case Nil
  then show ?case by simp
next
  case (Cons w ws)
  then obtain df1 where r1: "rolling_stats df c w stats = Inr df1"
    and r: "rolling_windows df1 c ws stats = Inr df'" by (auto split: sum.splits)
  from rolling_stats_columns [OF r1] obtain n1 where
    n1: "columns df1 = columns df @ n1" "set n1 = (\<lambda>st. roll_name c st w) ` set stats - set (columns df)"
    by blast
  from Cons.IH [OF r] obtain n2 where
    n2: "columns df' = columns df1 @ n2"
        "set n2 = (\<lambda>(st, w). roll_name c st w) ` (set stats \<times> set ws) - set (columns df1)" by blast
  have "columns df' = columns df @ (n1 @ n2)" using n1 n2 by simp
  moreover have "set (n1 @ n2) =
      (\<lambda>(st, w). roll_name c st w) ` (set stats \<times> set (w # ws)) - set (columns df)"
    using n1 n2 by auto
  ultimately show ?case by blast
qed

lemma stat_value_explicit:
  assumes "length xs = nat w" "0 \<le> w"
  shows "stat_value ''mean'' xs = (if w = 0 then NaN else Num (sum_list xs / real_of_int w))"
    and "stat_value ''std'' xs =
           (if w < 2 then NaN
            else Num (sqrt (sum_list (map (\<lambda>x. (x - sum_list xs / real_of_int w)\<^sup>2) xs) /
                            (real_of_int w - 1))))"
    and "stat_value ''min'' xs = (if w = 0 then NaN else Num (Min (set xs)))"
    and "stat_value ''max'' xs = (if w = 0 then NaN else Num (Max (set xs)))"
proof -
  from assms have e: "xs = [] \<longleftrightarrow> w = 0" by auto
  from assms have r: "real (length xs) = real_of_int w" by simp
  from assms have l2: "length xs < 2 \<longleftrightarrow> w < 2" by auto
  have r1: "real (length xs - 1) = real_of_int w - 1" if "\<not> w < 2"
    using that assms by (simp add: of_nat_diff)
  show "stat_value ''mean'' xs = (if w = 0 then NaN else Num (sum_list xs / real_of_int w))"
    by (simp add: stat_value_def mean_def e r)
  show "stat_value ''std'' xs =
           (if w < 2 then NaN
            else Num (sqrt (sum_list (map (\<lambda>x. (x - sum_list xs / real_of_int w)\<^sup>2) xs) /
                            (real_of_int w - 1))))"
    using r1 by (simp add: stat_value_def sample_std_def mean_def l2 r)
  show "stat_value ''min'' xs = (if w = 0 then NaN else Num (Min (set xs)))"
    by (simp add: stat_value_def e)
  show "stat_value ''max'' xs = (if w = 0 then NaN else Num (Max (set xs)))"
    by (simp add: stat_value_def e)
qed

text \<open>
  C5. Given a table, one of its columns \<open>col\<close> (numeric), windows \<open>w \<ge> 0\<close> and statistics among
  mean, std, min and max, \<open>add_rolling_features\<close> succeeds and the result has, for every window
  and statistic, a column \<open>col_roll_stat_w\<close>. Its row \<open>i\<close> is missing for \<open>i < w - 1\<close> and
  whenever one of the \<open>w\<close> values \<open>col[i-w+1 .. i]\<close> is missing. When all of them are present,
  the mean is their sum divided by \<open>w\<close>, the std is the square root of the sum of their
  squared distances from that mean divided by \<open>w - 1\<close> (missing for a window of one value),
  the min is their least and the max their greatest value. The new columns come after the
  old ones, every other column is the one of the input, and the number of rows is
  unchanged.
\<close>

theorem add_rolling_features_windows:
  assumes "wf_frame df" and "getcol df col = Some s" and "is_numeric s"
    and "\<forall>w \<in> set windows. 0 \<le> w" and "set stats \<subseteq> set supported_stats"
  shows "\<exists>df'. add_rolling_features df col windows (Some stats) = Inr df' \<and>
     wf_frame df' \<and> nrows df' = nrows df \<and>
     (\<exists>new. columns df' = columns df @ new \<and>
        set new = (\<lambda>(stat, w). roll_name col stat w) ` (set stats \<times> set windows) - set (columns df)) \<and>
     (\<forall>w \<in> set windows. \<forall>stat \<in> set stats.
        \<exists>t. getcol df' (roll_name col stat w) = Some t \<and> length t = length s \<and>
          (\<forall>i < length s.
             (int i < w - 1 \<longrightarrow> t ! i = NaN) \<and>
             (w - 1 \<le> int i \<longrightarrow>
                ((\<exists>j \<in> {Suc i - nat w..<Suc i}. s ! j = NaN) \<longrightarrow> t ! i = NaN) \<and>
                (\<forall>xs. map (\<lambda>j. s ! j) [Suc i - nat w..<Suc i] = map Num xs \<longrightarrow>
                   (stat = ''mean'' \<longrightarrow>
                      t ! i = (if w = 0 then NaN else Num (sum_list xs / real_of_int w))) \<and>
                   (stat = ''std'' \<longrightarrow>
                      t ! i =
                        (if w < 2 then NaN
                         else Num (sqrt (sum_list (map (\<lambda>x. (x - sum_list xs / real_of_int w)\<^sup>2) xs) /
                                         (real_of_int w - 1))))) \<and>
                   (stat = ''min'' \<longrightarrow> t ! i = (if w = 0 then NaN else Num (Min (set xs)))) \<and>
                   (stat = ''max'' \<longrightarrow> t ! i = (if w = 0 then NaN else Num (Max (set xs)))))))) \<and>
     (\<forall>c. c \<notin> (\<lambda>(stat, w). roll_name col stat w) ` (set stats \<times> set windows) \<longrightarrow>
        getcol df' c = getcol df c)"
proof -
  from rolling_windows_cols [OF assms(2,4,3,5)] obtain df' where
    r: "rolling_windows df col windows stats = Inr df'" and
    a: "\<forall>w \<in> set windows. \<forall>st \<in> set stats.
          getcol df' (roll_name col st w) = Some (rolling (nat w) (stat_value st) s)" and
    b: "\<forall>x. x \<notin> (\<lambda>(st, w). roll_name col st w) ` (set stats \<times> set windows) \<longrightarrow>
          getcol df' x = getcol df x" by blast
  have r': "add_rolling_features df col windows (Some stats) = Inr df'"
    using r by (simp add: add_rolling_features_def)
  from rolling_windows_wf [OF assms(1) r] have w: "wf_frame df'" "nrows df' = nrows df" by simp_all
  note c = rolling_windows_columns [OF r]
  have d: "\<forall>w \<in> set windows. \<forall>stat \<in> set stats.
        \<exists>t. getcol df' (roll_name col stat w) = Some t \<and> length t = length s \<and>
          (\<forall>i < length s.
             (int i < w - 1 \<longrightarrow> t ! i = NaN) \<and>
             (w - 1 \<le> int i \<longrightarrow>
                ((\<exists>j \<in> {Suc i - nat w..<Suc i}. s ! j = NaN) \<longrightarrow> t ! i = NaN) \<and>
                (\<forall>xs. map (\<lambda>j. s ! j) [Suc i - nat w..<Suc i] = map Num xs \<longrightarrow>
                   (stat = ''mean'' \<longrightarrow>
                      t ! i = (if w = 0 then NaN else Num (sum_list xs / real_of_int w))) \<and>
                   (stat = ''std'' \<longrightarrow>
                      t ! i =
                        (if w < 2 then NaN
                         else Num (sqrt (sum_list (map (\<lambda>x. (x - sum_list xs / real_of_int w)\<^sup>2) xs) /
                                         (real_of_int w - 1))))) \<and>
                   (stat = ''min'' \<longrightarrow> t ! i = (if w = 0 then NaN else Num (Min (set xs)))) \<and>
                   (stat = ''max'' \<longrightarrow> t ! i = (if w = 0 then NaN else Num (Max (set xs)))))))"
  proof (intro ballI)
    fix w stat assume ws: "w \<in> set windows" "stat \<in> set stats"
    with assms(4) have w0: "0 \<le> w" by simp
    let ?t = "rolling (nat w) (stat_value stat) s"
    have short: "?t ! i = NaN" if "i < length s" "int i < w - 1" for i
      using that by (intro rolling_short) auto
    have missing: "?t ! i = NaN"
      if i: "i < length s" "w - 1 \<le> int i" and ex: "\<exists>j \<in> {Suc i - nat w..<Suc i}. s ! j = NaN" for i
    proof -
      from ex obtain j where j: "j \<in> {Suc i - nat w..<Suc i}" "s ! j = NaN" by blast
      from i w0 have le: "nat w \<le> Suc i" by auto
      from j(2) have "\<forall>x. s ! j \<noteq> Num x" by simp
      from rolling_missing [OF i(1) le j(1) this] show ?thesis .
    qed
    have full: "?t ! i = stat_value stat xs \<and> length xs = nat w"
      if i: "i < length s" "w - 1 \<le> int i"
        and m: "map (\<lambda>j. s ! j) [Suc i - nat w..<Suc i] = map Num xs" for i xs
    proof -
      from i w0 have le: "nat w \<le> Suc i" by auto
      from arg_cong [OF m, of length] le have "length xs = nat w" by (simp del: upt_Suc)
      with rolling_full [OF i(1) le m] show ?thesis by simp
    qed
    have "\<forall>i < length s.
             (int i < w - 1 \<longrightarrow> ?t ! i = NaN) \<and>
             (w - 1 \<le> int i \<longrightarrow>
                ((\<exists>j \<in> {Suc i - nat w..<Suc i}. s ! j = NaN) \<longrightarrow> ?t ! i = NaN) \<and>
                (\<forall>xs. map (\<lambda>j. s ! j) [Suc i - nat w..<Suc i] = map Num xs \<longrightarrow>
                   (stat = ''mean'' \<longrightarrow>
                      ?t ! i = (if w = 0 then NaN else Num (sum_list xs / real_of_int w))) \<and>
                   (stat = ''std'' \<longrightarrow>
                      ?t ! i =
                        (if w < 2 then NaN
                         else Num (sqrt (sum_list (map (\<lambda>x. (x - sum_list xs / real_of_int w)\<^sup>2) xs) /
                                         (real_of_int w - 1))))) \<and>
                   (stat = ''min'' \<longrightarrow> ?t ! i = (if w = 0 then NaN else Num (Min (set xs)))) \<and>
                   (stat = ''max'' \<longrightarrow> ?t ! i = (if w = 0 then NaN else Num (Max (set xs))))))"
      using short missing full stat_value_explicit [OF _ w0] by (intro allI impI conjI) metis+
    with a ws show "\<exists>t. getcol df' (roll_name col stat w) = Some t \<and> length t = length s \<and>
          (\<forall>i < length s.
             (int i < w - 1 \<longrightarrow> t ! i = NaN) \<and>
             (w - 1 \<le> int i \<longrightarrow>
                ((\<exists>j \<in> {Suc i - nat w..<Suc i}. s ! j = NaN) \<longrightarrow> t ! i = NaN) \<and>
                (\<forall>xs. map (\<lambda>j. s ! j) [Suc i - nat w..<Suc i] = map Num xs \<longrightarrow>
                   (stat = ''mean'' \<longrightarrow>
                      t ! i = (if w = 0 then NaN else Num (sum_list xs / real_of_int w))) \<and>
                   (stat = ''std'' \<longrightarrow>
                      t ! i =
                        (if w < 2 then NaN
                         else Num (sqrt (sum_list (map (\<lambda>x. (x - sum_list xs / real_of_int w)\<^sup>2) xs) /
                                         (real_of_int w - 1))))) \<and>
                   (stat = ''min'' \<longrightarrow> t ! i = (if w = 0 then NaN else Num (Min (set xs)))) \<and>
                   (stat = ''max'' \<longrightarrow> t ! i = (if w = 0 then NaN else Num (Max (set xs)))))))"
      by (intro exI [of _ ?t] conjI) simp_all
  qed
  from r' w c d b show ?thesis by blast
qed

lemmas roll_eval_simps = add_rolling_features_def roll_name_def supported_stats_def is_numeric_def
  rolling_def window_at_def stat_value_def mean_def sample_std_def upt_rec

theorem add_rolling_features_windows_witness:
  "wf_frame ex_values \<and> getcol ex_values ''value'' = Some [Num 10, Num 20, Num 30, Num 40, Num 50] \<and>
   is_numeric [Num 10, Num 20, Num 30, Num 40, Num 50] \<and> (0::int) \<le> 3 \<and>
   set [''mean'', ''std'', ''min'', ''max''] \<subseteq> set supported_stats \<and>
   add_rolling_features ex_values ''value'' [3] (Some [''mean'', ''std'', ''min'', ''max'']) =
     Inr [(''value'', [Num 10, Num 20, Num 30, Num 40, Num 50]),
          (''value_roll_mean_3'', [NaN, NaN, Num 20, Num 30, Num 40]),
          (''value_roll_std_3'', [NaN, NaN, Num 10, Num 10, Num 10]),
          (''value_roll_min_3'', [NaN, NaN, Num 10, Num 20, Num 30]),
          (''value_roll_max_3'', [NaN, NaN, Num 30, Num 40, Num 50])]"
proof -
  have w: "wf_frame ex_values" by (simp add: ex_values_def eval_simps)
  have g: "getcol ex_values ''value'' = Some [Num 10, Num 20, Num 30, Num 40, Num 50]"
    by (simp add: ex_values_def eval_simps)
  have n: "is_numeric [Num 10, Num 20, Num 30, Num 40, Num 50]" by (simp add: is_numeric_def)
  have p: "\<forall>w \<in> set [3::int]. 0 \<le> w" by simp
  have st: "set [''mean'', ''std'', ''min'', ''max''] \<subseteq> set supported_stats"
    by (simp add: supported_stats_def)
  have v: "add_rolling_features ex_values ''value'' [3] (Some [''mean'', ''std'', ''min'', ''max'']) =
     Inr [(''value'', [Num 10, Num 20, Num 30, Num 40, Num 50]),
          (''value_roll_mean_3'', [NaN, NaN, Num 20, Num 30, Num 40]),
          (''value_roll_std_3'', [NaN, NaN, Num 10, Num 10, Num 10]),
          (''value_roll_min_3'', [NaN, NaN, Num 10, Num 20, Num 30]),
          (''value_roll_max_3'', [NaN, NaN, Num 30, Num 40, Num 50])]"
    by (simp add: ex_values_def eval_simps roll_eval_simps real_sqrt_unique)
  from add_rolling_features_windows [OF w g n p st] obtain df' where
    d: "add_rolling_features ex_values ''value'' [3] (Some [''mean'', ''std'', ''min'', ''max'']) = Inr df'"
    by (elim exE conjE)
  from d v have "df' = [(''value'', [Num 10, Num 20, Num 30, Num 40, Num 50]),
          (''value_roll_mean_3'', [NaN, NaN, Num 20, Num 30, Num 40]),
          (''value_roll_std_3'', [NaN, NaN, Num 10, Num 10, Num 10]),
          (''value_roll_min_3'', [NaN, NaN, Num 10, Num 20, Num 30]),
          (''value_roll_max_3'', [NaN, NaN, Num 30, Num 40, Num 50])]" by simp
  with d w g n st show ?thesis by simp
qed

section \<open>Mutation of the argument\<close>

lemma add_lag_features_at_value:
  "add_lag_features_at h r c lags =
     (case add_lag_features (h r) c lags of
        Inl e \<Rightarrow> (Inl e, h)
      | Inr df' \<Rightarrow> (Inr r, h(r := df')))"
proof (induction lags arbitrary: h)
  case Nil
  then show ?case by simp
next
  case (Cons k ks)
  show ?case
  proof (cases "getcol (h r) c")
    case None
    then show ?thesis by simp
  next
    case (Some s)
    let ?df1 = "setcol (lag_name c k) (shift k s) (h r)"
    have "getcol ?df1 c = Some s" using Some by (simp add: getcol_setcol)
    from add_lag_features_cols [OF this, of ks] obtain df' where
      r: "add_lag_features ?df1 c ks = Inr df'" by blast
    have "add_lag_features_at (h(r := ?df1)) r c ks = (Inr r, (h(r := ?df1))(r := df'))"
      by (subst Cons.IH) (simp add: r)
    then have "add_lag_features_at (h(r := ?df1)) r c ks = (Inr r, h(r := df'))"
      by (simp only: fun_upd_upd)
    with Some r show ?thesis by simp
  qed
qed

text \<open>
  C9, as the code has it. \<open>add_lag_features\<close> writes into the caller's table: it returns the
  reference it was given, and afterwards that table holds the lag columns. The table keeps
  its rows (their number and, in every column that is not a lag column, their values in
  order), the lag columns come after the existing columns, and no other table of the store
  changes.
\<close>

theorem add_lag_features_in_place:
  assumes "wf_frame (h df)" and "getcol (h df) col = Some s"
  shows "\<exists>h'. add_lag_features_at h df col lags = (Inr df, h') \<and>
     add_lag_features (h df) col lags = Inr (h' df) \<and>
     (\<forall>r. r \<noteq> df \<longrightarrow> h' r = h r) \<and>
     wf_frame (h' df) \<and> nrows (h' df) = nrows (h df) \<and>
     (\<exists>new. columns (h' df) = columns (h df) @ new \<and>
        set new = lag_name col ` set lags - set (columns (h df))) \<and>
     (\<forall>k \<in> set lags. getcol (h' df) (lag_name col k) = Some (shift k s)) \<and>
     (\<forall>c. c \<notin> lag_name col ` set lags \<longrightarrow> getcol (h' df) c = getcol (h df) c)"
proof -
  from add_lag_features_cols [OF assms(2), of lags] obtain df' where
    r: "add_lag_features (h df) col lags = Inr df'" and
    a: "\<forall>k \<in> set lags. getcol df' (lag_name col k) = Some (shift k s)" and
    b: "\<forall>x. x \<notin> lag_name col ` set lags \<longrightarrow> getcol df' x = getcol (h df) x" by blast
  from add_lag_features_wf [OF assms(1) r] have w: "wf_frame df'" "nrows df' = nrows (h df)" by simp_all
  note c = add_lag_features_columns [OF r]
  let ?h' = "h(df := df')"
  have "add_lag_features_at h df col lags = (Inr df, ?h')"
    using r by (simp add: add_lag_features_at_value)
  moreover have "add_lag_features (h df) col lags = Inr (?h' df)" using r by simp
  moreover have "\<forall>r. r \<noteq> df \<longrightarrow> ?h' r = h r" by simp
  ultimately show ?thesis using w c a b by (intro exI [of _ ?h']) simp
qed

theorem add_lag_features_in_place_witness:
  "wf_frame ex_values \<and> getcol ex_values ''value'' = Some [Num 10, Num 20, Num 30, Num 40, Num 50] \<and>
   fst (add_lag_features_at (\<lambda>r. ex_values) 0 ''value'' [1]) = Inr 0 \<and>
   snd (add_lag_features_at (\<lambda>r. ex_values) 0 ''value'' [1]) 0 =
     [(''value'', [Num 10, Num 20, Num 30, Num 40, Num 50]),
      (''value_lag_1'', [NaN, Num 10, Num 20, Num 30, Num 40])] \<and>
   snd (add_lag_features_at (\<lambda>r. ex_values) 0 ''value'' [1]) 1 = ex_values"
proof -
  have w: "wf_frame ((\<lambda>r. ex_values) (0::nat))" by (simp add: ex_values_def eval_simps)
  have g: "getcol ((\<lambda>r. ex_values) (0::nat)) ''value'' = Some [Num 10, Num 20, Num 30, Num 40, Num 50]"
    by (simp add: ex_values_def eval_simps)
  from add_lag_features_in_place [OF w g, where lags = "[1]"] w g show ?thesis
    by (simp add: ex_values_def eval_simps)
qed

text \<open>
  The claim of purity fails: after the call on the example table, the caller's table is no
  longer the table that was passed in.
\<close>

theorem add_lag_features_mutates_argument:
  "snd (add_lag_features_at (\<lambda>r. ex_values) 0 ''value'' [1]) 0 \<noteq> ex_values"
  by (simp add: ex_values_def eval_simps)

section \<open>Synthesized rows\<close>

lemma apply_scenario_keys: "map fst (apply_scenario row idx sc) = map fst row"
  by (induction row idx sc rule: apply_scenario.induct) (auto simp: update_keys)

lemma apply_scenario_lookup:
  assumes "distinct (map fst sc)"
  shows "map_of (apply_scenario row idx sc) c =
     (case map_of sc c of
        Some values \<Rightarrow>
          if idx < length values \<and> c \<in> set (map fst row) then Some (Num (values ! idx))
          else map_of row c
      | None \<Rightarrow> map_of row c)"
  using assms
proof (induction row idx sc rule: apply_scenario.induct)
  case (1 row idx)
  then show ?case by simp
next
  case (2 row idx var vals rest)
  define row' where "row' = (if idx < length vals \<and> var \<in> set (map fst row)
        then AList.update var (Num (vals ! idx)) row else row)"
  from "2.prems" have d: "distinct (map fst rest)" and nv: "var \<notin> set (map fst rest)" by auto
  have step: "apply_scenario row idx ((var, vals) # rest) = apply_scenario row' idx rest"
    by (simp add: row'_def)
  have keys: "map fst row' = map fst row" by (simp add: row'_def update_keys)
  have other: "map_of row' x = map_of row x" if "x \<noteq> var" for x
    using that by (simp add: row'_def update_conv')
  have this_var: "map_of row' var =
      (if idx < length vals \<and> var \<in> set (map fst row) then Some (Num (vals ! idx)) else map_of row var)"
    by (simp add: row'_def update_conv')
  note ih = "2.IH" [OF d, folded row'_def]
  show ?case
  proof (cases "c = var")
    case True
    from nv have "map_of rest var = None" by (simp add: map_of_eq_None_iff)
    with True ih this_var show ?thesis unfolding step by simp
  next
    case False
    with ih keys other [OF False] show ?thesis unfolding step by (simp split: option.splits)
  qed
qed

text \<open>
  C7. The synthesized row has the columns of the template (with \<open>date\<close>, were it absent). A
  column named by the scenario, present in the row and with a value at position \<open>idx\<close>, holds
  that value; every other column holds the template's value, except that \<open>date\<close> holds the
  requested date. A scenario variable that is not a column, or whose list is too short,
  changes nothing, and no error can arise: the function is total.
\<close>

theorem synth_row_overrides:
  assumes "distinct (map fst scenario)"
  shows "map fst (synth_row template idx date scenario) =
           (if ''date'' \<in> set (map fst template) then map fst template
            else map fst template @ [''date'']) \<and>
         (\<forall>c. map_of (synth_row template idx date scenario) c =
            (case map_of scenario c of
               Some values \<Rightarrow>
                 if idx < length values \<and> (c = ''date'' \<or> c \<in> set (map fst template))
                 then Some (Num (values ! idx))
                 else if c = ''date'' then Some date else map_of template c
             | None \<Rightarrow> if c = ''date'' then Some date else map_of template c))"
proof -
  have "set (map fst (AList.update ''date'' date template)) = insert ''date'' (set (map fst template))"
    by (auto simp: update_keys)
  then show ?thesis
    using apply_scenario_lookup [OF assms, of "AList.update ''date'' date template" idx]
    by (auto simp: synth_row_def apply_scenario_keys update_keys update_conv' split: option.splits)
qed

theorem synth_row_overrides_witness:
  "distinct (map fst ex_scenario) \<and>
   synth_row ex_template 1 (Stamp 14 0) ex_scenario =
     [(''date'', Stamp 14 0), (''saudi_production'', Num 13), (''brent_price'', Num 200)]"
proof -
  have d: "distinct (map fst ex_scenario)" by (simp add: ex_scenario_def)
  from synth_row_overrides [OF d, of ex_template 1 "Stamp 14 0"] d show ?thesis
    by (simp add: ex_scenario_def ex_template_def synth_row_def)
qed

section \<open>One pass of the feature loop\<close>

lemma lag_roll_neq [simp]: "lag_name c k \<noteq> roll_name c st w" "roll_name c st w \<noteq> lag_name c k"
  by (simp_all add: lag_name_def roll_name_def)

lemma derived_keys: "map fst (derived c s) = derived_names c"
  by (simp add: derived_def derived_names_def)

lemma derive_col_eq:
  assumes "getcol df c = Some s" "is_numeric s"
  shows "derive_col df c = Inr (write_cols (derived c s) df)"
  using assms
  by (simp add: derive_col_def getcol_setcol add_rolling_features_def supported_stats_def
      derived_def write_cols_def)

lemma derive_col_inv:
  assumes "derive_col df c = Inr df'"
  shows "\<exists>s. getcol df c = Some s \<and> is_numeric s"
proof (cases "getcol df c")
  case None
  with assms show ?thesis by (simp add: derive_col_def)
next
  case (Some s)
  show ?thesis
  proof (cases "is_numeric s")
    case True with Some show ?thesis by simp
  next
    case False
    with Some assms show ?thesis
      by (simp add: derive_col_def getcol_setcol add_rolling_features_def supported_stats_def)
  qed
qed

lemma getcol_write_cols:
  "getcol (write_cols l df) x = (case map_of (rev l) x of Some t \<Rightarrow> Some t | None \<Rightarrow> getcol df x)"
proof (induction l arbitrary: df)
  case Nil
  then show ?case by (simp add: write_cols_def)
next
  case (Cons a l)
  obtain n t where a: "a = (n, t)" by (cases a)
  have "write_cols (a # l) df = write_cols l (setcol n t df)" by (simp add: write_cols_def a)
  with Cons [of "setcol n t df"] show ?case
    by (auto simp: a getcol_setcol map_add_def split: option.splits)
qed

lemma getcol_write_cols_other:
  "x \<notin> set (map fst l) \<Longrightarrow> getcol (write_cols l df) x = getcol df x"
proof -
  assume "x \<notin> set (map fst l)"
  then have "map_of (rev l) x = None" by (simp add: map_of_eq_None_iff)
  then show ?thesis by (simp add: getcol_write_cols)
qed

lemma derived_names_eq:
  "derived_names c = map (\<lambda>sfx. c @ sfx)
     [''_lag_1'', ''_lag_2'', ''_lag_3'', ''_lag_6'', ''_lag_12'',
      ''_roll_mean_3'', ''_roll_std_3'', ''_roll_mean_6'', ''_roll_std_6'',
      ''_roll_mean_12'', ''_roll_std_12'']"
  by (simp add: derived_names_def derived_def lag_name_def roll_name_def str_int_def str_nat.simps
      digit_char_def)

lemma derived_name_longer: "x \<in> set (derived_names c) \<Longrightarrow> length c < length x"
  unfolding derived_names_eq by auto

lemma derived_names_suffixes: "derived_names c = map (\<lambda>sfx. c @ sfx) derived_suffixes"
  by (simp add: derived_names_eq derived_suffixes_def)

lemma suffix_key_all: "\<forall>a \<in> set derived_suffixes. take 4 (rev (c @ a)) = take 4 (rev a)"
  by (simp add: derived_suffixes_def)

lemma suffix_key: "a \<in> set derived_suffixes \<Longrightarrow> take 4 (rev (c @ a)) = take 4 (rev a)"
  using suffix_key_all by blast

lemma suffix_key_distinct: "distinct (map (\<lambda>a. take 4 (rev a)) derived_suffixes)"
  by (simp add: derived_suffixes_def)

lemma suffix_key_inj:
  "a \<in> set derived_suffixes \<Longrightarrow> b \<in> set derived_suffixes \<Longrightarrow>
   take 4 (rev a) = take 4 (rev b) \<Longrightarrow> a = b"
  using suffix_key_distinct by (auto simp: distinct_map dest: inj_onD)

lemma derived_names_disjoint:
  assumes "x \<in> set (derived_names c)" "x \<in> set (derived_names v)"
  shows "c = v"
proof -
  from assms obtain a b where
    a: "a \<in> set derived_suffixes" and b: "b \<in> set derived_suffixes" and
    e: "x = c @ a" "x = v @ b"
    unfolding derived_names_suffixes by auto
  from e have "take 4 (rev (c @ a)) = take 4 (rev (v @ b))" by simp
  then have "take 4 (rev a) = take 4 (rev b)" by (simp only: suffix_key [OF a] suffix_key [OF b])
  from suffix_key_inj [OF a b this] e show ?thesis by simp
qed

section \<open>The feature loop over several variables\<close>

lemma derive_col_cases:
  assumes "derive_col df c = Inr df'"
  obtains s where "getcol df c = Some s" "is_numeric s" "df' = write_cols (derived c s) df"
proof -
  from derive_col_inv [OF assms] obtain s where s: "getcol df c = Some s" "is_numeric s" by blast
  from derive_col_eq [OF s] assms have "df' = write_cols (derived c s) df" by simp
  with s that show ?thesis by blast
qed

lemma derive_features_untouched:
  "derive_features df cs = Inr p \<Longrightarrow> \<forall>v \<in> set cs. x \<notin> set (derived_names v) \<Longrightarrow>
   getcol p x = getcol df x"
proof (induction cs arbitrary: df)
  case Nil
  then show ?case by simp
next
  case (Cons v cs)
  from Cons.prems(1) obtain df1 where d1: "derive_col df v = Inr df1"
    and r: "derive_features df1 cs = Inr p" by (auto split: sum.splits)
  from d1 obtain s where s: "df1 = write_cols (derived v s) df" by (rule derive_col_cases)
  from Cons.prems(2) have "x \<notin> set (map fst (derived v s))" by (simp add: derived_keys)
  then have "getcol df1 x = getcol df x" unfolding s by (rule getcol_write_cols_other)
  moreover from Cons.prems(2) have "\<forall>v \<in> set cs. x \<notin> set (derived_names v)" by simp
  ultimately show ?case using Cons.IH [OF r] by simp
qed

lemma derive_features_stable:
  assumes "derive_features df cs = Inr p" and "c \<in> set cs"
    and "\<forall>v \<in> set cs. c \<notin> set (derived_names v)"
  shows "\<exists>s. getcol df c = Some s \<and> is_numeric s \<and>
           (\<forall>x \<in> set (derived_names c). getcol p x = map_of (rev (derived c s)) x)"
  using assms
proof (induction cs arbitrary: df)
  case Nil
  then show ?case by simp
next
  case (Cons v cs)
  from Cons.prems(1) obtain df1 where d1: "derive_col df v = Inr df1"
    and r: "derive_features df1 cs = Inr p" by (auto split: sum.splits)
  from d1 obtain sv where sv: "getcol df v = Some sv" "is_numeric sv"
    "df1 = write_cols (derived v sv) df" by (rule derive_col_cases)
  from Cons.prems(3) have "c \<notin> set (map fst (derived v sv))" by (simp add: derived_keys)
  then have same: "getcol df1 c = getcol df c" unfolding sv(3) by (rule getcol_write_cols_other)
  from Cons.prems(3) have st: "\<forall>v \<in> set cs. c \<notin> set (derived_names v)" by simp
  show ?case
  proof (cases "c \<in> set cs")
    case True
    from Cons.IH [OF r True st] same show ?thesis by simp
  next
    case False
    with Cons.prems(2) have cv: "c = v" by simp
    have "\<forall>x \<in> set (derived_names c). getcol p x = map_of (rev (derived c sv)) x"
    proof
      fix x assume x: "x \<in> set (derived_names c)"
      have "\<forall>u \<in> set cs. x \<notin> set (derived_names u)"
      proof
        fix u assume u: "u \<in> set cs"
        show "x \<notin> set (derived_names u)"
        proof
          assume "x \<in> set (derived_names u)"
          from derived_names_disjoint [OF x this] u False show False by simp
        qed
      qed
      from derive_features_untouched [OF r this] have "getcol p x = getcol df1 x" .
      also have "\<dots> = (case map_of (rev (derived c sv)) x of Some t \<Rightarrow> Some t | None \<Rightarrow> getcol df x)"
        unfolding sv(3) cv by (rule getcol_write_cols)
      also have "\<dots> = map_of (rev (derived c sv)) x"
      proof -
        have "set (derived_names c) = fst ` set (rev (derived c sv))"
          unfolding derived_keys [of c sv, symmetric] by simp
        with x have "x \<in> fst ` set (rev (derived c sv))" by simp
        then have "map_of (rev (derived c sv)) x \<noteq> None" by (simp only: map_of_eq_None_iff not_not)
        then show ?thesis by (auto split: option.splits)
      qed
      finally show "getcol p x = map_of (rev (derived c sv)) x" .
    qed
    with sv cv show ?thesis by auto
  qed
qed

lemma stat_value_numeric:
  "(case stat_value st xs of NaN \<Rightarrow> True | Num x \<Rightarrow> True | _ \<Rightarrow> False)"
  by (simp add: stat_value_def)

lemma is_numeric_rolling: "is_numeric (rolling w (stat_value st) s)"
  unfolding is_numeric_def rolling_def list_all_iff
proof
  fix c assume "c \<in> set (map (\<lambda>i. let xs = observed (window_at w s i)
                in if w \<le> length xs then stat_value st xs else NaN) [0..<length s])"
  then obtain xs where "c = stat_value st xs \<or> c = NaN" by (auto simp: Let_def)
  then show "case c of NaN \<Rightarrow> True | Num x \<Rightarrow> True | _ \<Rightarrow> False"
    using stat_value_numeric [of st xs] by auto
qed

lemma is_numeric_shift: "is_numeric s \<Longrightarrow> is_numeric (shift k s)"
  by (auto simp: is_numeric_def shift_def Let_def list_all_iff dest: in_set_takeD in_set_dropD)

lemma derived_numeric: "is_numeric s \<Longrightarrow> (n, t) \<in> set (derived c s) \<Longrightarrow> is_numeric t"
  by (auto simp: derived_def is_numeric_shift is_numeric_rolling)

lemma derive_features_succeeds:
  assumes "\<forall>c \<in> set cs. \<exists>s. getcol df c = Some s \<and> is_numeric s"
  shows "\<exists>p. derive_features df cs = Inr p"
proof -
  have "\<forall>c \<in> set all. \<exists>s. getcol df c = Some s \<and> is_numeric s \<Longrightarrow> set cs \<subseteq> set all \<Longrightarrow>
        \<exists>p. derive_features df cs = Inr p" for all
  proof (induction cs arbitrary: df)
    case Nil
    then show ?case by simp
  next
    case (Cons v cs)
    from Cons.prems obtain s where s: "getcol df v = Some s" "is_numeric s" by auto
    let ?df1 = "write_cols (derived v s) df"
    have d1: "derive_col df v = Inr ?df1" by (rule derive_col_eq [OF s])
    have "\<forall>c \<in> set all. \<exists>t. getcol ?df1 c = Some t \<and> is_numeric t"
    proof
      fix c assume c: "c \<in> set all"
      show "\<exists>t. getcol ?df1 c = Some t \<and> is_numeric t"
      proof (cases "map_of (rev (derived v s)) c")
        case None
        with Cons.prems(1) c show ?thesis by (simp add: getcol_write_cols)
      next
        case (Some t)
        then have "(c, t) \<in> set (derived v s)" by (auto dest: map_of_SomeD)
        from derived_numeric [OF s(2) this] Some show ?thesis by (simp add: getcol_write_cols)
      qed
    qed
    from Cons.IH [OF this] Cons.prems(2) d1 show ?case by simp
  qed
  from this [of cs] assms show ?thesis by simp
qed

lemma rect_write_cols:
  "rect df \<Longrightarrow> \<forall>(n, t) \<in> set l. length t = nrows df \<Longrightarrow>
   rect (write_cols l df) \<and> nrows (write_cols l df) = nrows df"
proof (induction l arbitrary: df)
  case Nil
  then show ?case by (simp add: write_cols_def)
next
  case (Cons a l)
  obtain n t where a: "a = (n, t)" by (cases a)
  from Cons.prems a have lt: "length t = nrows df" by simp
  have w: "write_cols (a # l) df = write_cols l (setcol n t df)" by (simp add: write_cols_def a)
  from rect_setcol [OF Cons.prems(1) lt] Cons.prems(2)
  have "rect (setcol n t df)" "\<forall>(m, u) \<in> set l. length u = nrows (setcol n t df)" by auto
  from Cons.IH [OF this] rect_setcol(2) [OF Cons.prems(1) lt] show ?case unfolding w by simp
qed

lemma derived_lengths: "(n, t) \<in> set (derived c s) \<Longrightarrow> length t = length s"
  by (auto simp: derived_def)

lemma derive_features_rect:
  "rect df \<Longrightarrow> derive_features df cs = Inr p \<Longrightarrow> rect p \<and> nrows p = nrows df"
proof (induction cs arbitrary: df)
  case Nil
  then show ?case by simp
next
  case (Cons v cs)
  from Cons.prems(2) obtain df1 where d1: "derive_col df v = Inr df1"
    and r: "derive_features df1 cs = Inr p" by (auto split: sum.splits)
  from d1 obtain s where s: "getcol df v = Some s" "df1 = write_cols (derived v s) df"
    by (rule derive_col_cases)
  have "\<forall>(n, t) \<in> set (derived v s). length t = nrows df"
    using rect_getcol_length [OF Cons.prems(1) s(1)] by (auto dest: derived_lengths)
  from rect_write_cols [OF Cons.prems(1) this] have "rect df1" "nrows df1 = nrows df"
    unfolding s(2) by simp_all
  with Cons.IH [OF _ r] show ?case by simp
qed

section \<open>Frame operations\<close>

lemma getcol_take_rows:
  "getcol (take_rows idx df) c = map_option (\<lambda>s. map (\<lambda>i. s ! i) idx) (getcol df c)"
  by (induction df) (auto simp: getcol_def take_rows_def)

lemma columns_take_rows [simp]: "columns (take_rows idx df) = columns df"
  by (induction df) (auto simp: columns_def take_rows_def)

lemma sort_values_cases:
  assumes "sort_values df by = Inr r"
  obtains s idx where "getcol df by = Some s" "argsort s = Inr idx" "r = take_rows idx df"
  using assms by (auto simp: sort_values_def split: option.splits sum.splits)

lemma sort_values_has_key: "sort_values df by = Inr r \<Longrightarrow> getcol r by \<noteq> None"
  by (erule sort_values_cases) (simp add: getcol_take_rows)

lemma prepare_combined_has_date:
  "prepare_combined features dates scenario = Inr combined \<Longrightarrow> getcol combined ''date'' \<noteq> None"
  by (auto simp: prepare_combined_def split: sum.splits dest: sort_values_has_key)

lemma select_columns_ok:
  assumes "\<forall>c \<in> set cs. getcol df c \<noteq> None"
  shows "\<exists>b. select_columns df cs = Inr b \<and> columns b = cs \<and> (\<forall>c \<in> set cs. getcol b c = getcol df c)"
  using assms
proof (induction cs)
  case Nil
  then show ?case by (simp add: columns_def)
next
  case (Cons a cs)
  then obtain b where b: "select_columns df cs = Inr b" "columns b = cs"
    "\<forall>c \<in> set cs. getcol b c = getcol df c" by auto
  from Cons.prems obtain s where s: "getcol df a = Some s" by auto
  have "select_columns df (a # cs) = Inr ((a, s) # b)" using b(1) s by simp
  moreover have "columns ((a, s) # b) = a # cs" using b(2) by (simp add: columns_def)
  moreover have "\<forall>c \<in> set (a # cs). getcol ((a, s) # b) c = getcol df c"
    using b(3) s by (auto simp: getcol_def)
  ultimately show ?case by blast
qed

section \<open>Base variables\<close>

lemma derived_name_key:
  "x \<in> set (derived_names u) \<Longrightarrow> take 4 (rev x) \<in> set (map (\<lambda>a. take 4 (rev a)) derived_suffixes)"
proof -
  assume "x \<in> set (derived_names u)"
  then obtain a where a: "a \<in> set derived_suffixes" "x = u @ a"
    by (auto simp: derived_names_suffixes)
  from suffix_key [OF a(1), of u] have "take 4 (rev x) = take 4 (rev a)" unfolding a(2) .
  with a(1) show ?thesis by (simp only: set_map) (rule image_eqI, rule refl, assumption)
qed

lemma target_not_derived: "target_col \<notin> set (derived_names u)"
proof
  assume "target_col \<in> set (derived_names u)"
  from derived_name_key [OF this] show False by (simp add: target_col_def derived_suffixes_def)
qed

lemma date_not_derived: "''date'' \<notin> set (derived_names u)"
proof
  assume "''date'' \<in> set (derived_names u)"
  from derived_name_key [OF this] show False by (simp add: derived_suffixes_def)
qed

lemma matrix_variables_processed:
  "target_col # other_columns features = matrix_variables features"
  by (simp add: matrix_variables_def other_columns_def)

lemma base_variables_iff:
  "v \<in> set (base_variables features) \<longleftrightarrow>
   v \<in> set (matrix_variables features) \<and>
   (\<forall>u \<in> set (matrix_variables features). v \<notin> set (derived_names u))"
  by (auto simp: base_variables_def is_derived_of_def list_ex_iff)

lemma target_is_base: "target_col \<in> set (base_variables features)"
  unfolding base_variables_iff by (simp add: target_not_derived matrix_variables_def)

lemma date_not_base: "''date'' \<notin> set (base_variables features)"
  unfolding base_variables_iff by (simp add: matrix_variables_def target_col_def)

lemma distinct_derived_keys: "distinct (map fst (derived c s))"
proof -
  have "distinct derived_suffixes" by (simp add: derived_suffixes_def)
  then have "distinct (map (\<lambda>sfx. c @ sfx) derived_suffixes)" by (simp add: distinct_map inj_on_def)
  then show ?thesis by (simp add: derived_keys derived_names_suffixes)
qed

lemma derived_lookup:
  assumes "(x, series) \<in> set (derived c s)"
  shows "map_of (rev (derived c s)) x = Some series"
proof -
  have "distinct (map fst (rev (derived c s)))"
    using distinct_derived_keys [of c s] by (simp add: rev_map [symmetric])
  moreover from assms have "(x, series) \<in> set (rev (derived c s))" by simp
  ultimately show ?thesis by (rule map_of_is_SomeI)
qed

text \<open>
  C1. Whenever the preparer has built the combined sequence and recomputed its derived
  columns, the following holds for the target and for every other column of the persisted
  matrix, the date excepted, whose name is not itself that of a derived column (the base
  variables). The builder's feature step applied to the base part of the combined sequence
  (its date and its base variables only) succeeds as well, and each of the eleven lag and
  rolling columns of the variable is present in both results with the same series: the
  one computed from the variable's column in the combined sequence. The stale derived
  columns of the history and of the template row have no influence.
\<close>

theorem recompute_features_matches_builder:
  assumes "prepare_combined features dates scenario = Inr combined"
    and "recompute_features features combined = Inr p"
  shows "\<exists>b0 b. select_columns combined (''date'' # base_variables features) = Inr b0 \<and>
           feature_step b0 = Inr b \<and>
           (\<forall>v \<in> set (base_variables features).
              \<exists>s. getcol combined v = Some s \<and>
                (\<forall>(x, series) \<in> set (derived v s).
                   getcol p x = Some series \<and> getcol b x = Some series))"
proof -
  let ?vars = "matrix_variables features"
  let ?bvs = "base_variables features"
  from assms(2) have rc: "derive_features combined ?vars = Inr p"
    by (simp add: recompute_features_def matrix_variables_processed)
  have stable: "\<exists>s. getcol combined v = Some s \<and> is_numeric s \<and>
      (\<forall>x \<in> set (derived_names v). getcol p x = map_of (rev (derived v s)) x)"
    if "v \<in> set ?bvs" for v
  proof -
    from that have "v \<in> set ?vars" "\<forall>u \<in> set ?vars. v \<notin> set (derived_names u)"
      unfolding base_variables_iff by blast+
    from derive_features_stable [OF rc this] show ?thesis .
  qed
  have "\<forall>c \<in> set (''date'' # ?bvs). getcol combined c \<noteq> None"
    using prepare_combined_has_date [OF assms(1)] stable by auto
  from select_columns_ok [OF this] obtain b0 where
    b0: "select_columns combined (''date'' # ?bvs) = Inr b0" "columns b0 = ''date'' # ?bvs"
    "\<forall>c \<in> set (''date'' # ?bvs). getcol b0 c = getcol combined c" by blast
  let ?cs0 = "target_col # other_columns b0"
  have cs0: "set ?cs0 = set ?bvs"
    using target_is_base [of features] date_not_base [of features]
    by (auto simp: other_columns_def b0(2))
  have "\<forall>c \<in> set ?cs0. \<exists>s. getcol b0 c = Some s \<and> is_numeric s"
  proof
    fix c assume "c \<in> set ?cs0"
    with cs0 have c: "c \<in> set ?bvs" by simp
    from stable [OF c] b0(3) c show "\<exists>s. getcol b0 c = Some s \<and> is_numeric s" by auto
  qed
  from derive_features_succeeds [OF this] obtain b where b: "derive_features b0 ?cs0 = Inr b" by blast
  then have fs: "feature_step b0 = Inr b" by (simp add: feature_step_def)
  have "\<forall>v \<in> set ?bvs. \<exists>s. getcol combined v = Some s \<and>
      (\<forall>(x, series) \<in> set (derived v s). getcol p x = Some series \<and> getcol b x = Some series)"
  proof
    fix v assume v: "v \<in> set ?bvs"
    from stable [OF v] obtain s where s: "getcol combined v = Some s"
      "\<forall>x \<in> set (derived_names v). getcol p x = map_of (rev (derived v s)) x" by blast
    from v cs0 have v0: "v \<in> set ?cs0" by simp
    have "\<forall>u \<in> set ?cs0. v \<notin> set (derived_names u)"
    proof
      fix u assume "u \<in> set ?cs0"
      with cs0 have "u \<in> set ?bvs" by blast
      then have "u \<in> set ?vars" unfolding base_variables_iff by blast
      with v show "v \<notin> set (derived_names u)" unfolding base_variables_iff by blast
    qed
    from derive_features_stable [OF b v0 this] obtain s' where s': "getcol b0 v = Some s'"
      "\<forall>x \<in> set (derived_names v). getcol b x = map_of (rev (derived v s')) x" by blast
    from s'(1) s(1) b0(3) v have eq: "s' = s" by simp
    have "\<forall>(x, series) \<in> set (derived v s). getcol p x = Some series \<and> getcol b x = Some series"
    proof (intro ballI, clarify)
      fix x series assume m: "(x, series) \<in> set (derived v s)"
      then have "x \<in> set (derived_names v)"
        unfolding derived_keys [of v s, symmetric] by (auto intro: rev_image_eqI)
      with s(2) s'(2) eq derived_lookup [OF m]
      show "getcol p x = Some series \<and> getcol b x = Some series" by simp
    qed
    with s(1) show "\<exists>s. getcol combined v = Some s \<and>
      (\<forall>(x, series) \<in> set (derived v s). getcol p x = Some series \<and> getcol b x = Some series)"
      by blast
  qed
  with b0(1) fs show ?thesis by blast
qed

lemmas prep_simps = prepare_combined_def sort_values_def argsort_def take_rows_def is_stamp_def
  stamp_key_def iloc_last_def synth_row_def frame_of_rows_def concat_df_def col_or_missing_def
  enumerate_eq_zip

lemmas derive_simps = recompute_features_def feature_step_def other_columns_def target_col_def
  derive_col_def

theorem recompute_features_matches_builder_witness:
  "prepare_combined ex_history_exog [Stamp 2 0, Stamp 3 0] ex_exog_scenario = Inr ex_combined_exog \<and>
   (\<exists>p b0 b. recompute_features ex_history_exog ex_combined_exog = Inr p \<and>
      select_columns ex_combined_exog [''date'', ''saudi_production'', ''brent_price''] = Inr b0 \<and>
      feature_step b0 = Inr b \<and>
      getcol p ''brent_price_lag_1'' = Some [NaN, Num 50, Num 60, Num 70] \<and>
      getcol b ''brent_price_lag_1'' = Some [NaN, Num 50, Num 60, Num 70] \<and>
      getcol p ''brent_price_roll_mean_3'' = Some [NaN, NaN, Num 60, Num 70] \<and>
      getcol b ''brent_price_roll_mean_3'' = Some [NaN, NaN, Num 60, Num 70])"
proof -
  have pc: "prepare_combined ex_history_exog [Stamp 2 0, Stamp 3 0] ex_exog_scenario =
      Inr ex_combined_exog"
    by (simp add: ex_history_exog_def ex_combined_exog_def ex_exog_scenario_def prep_simps
        eval_simps upt_rec)
  have "\<exists>p. recompute_features ex_history_exog ex_combined_exog = Inr p"
    by (simp add: ex_history_exog_def ex_combined_exog_def derive_simps eval_simps roll_eval_simps)
  then obtain p where rc: "recompute_features ex_history_exog ex_combined_exog = Inr p" ..
  have bv: "base_variables ex_history_exog = [''saudi_production'', ''brent_price'']"
    by (simp add: base_variables_def matrix_variables_def is_derived_of_def
        derived_names_suffixes derived_suffixes_def ex_history_exog_def target_col_def columns_def)
  have gc: "getcol ex_combined_exog ''brent_price'' = Some [Num 50, Num 60, Num 70, Num 80]"
    by (simp add: ex_combined_exog_def getcol_def)
  have dl: "(''brent_price_lag_1'', [NaN, Num 50, Num 60, Num 70])
      \<in> set (derived ''brent_price'' [Num 50, Num 60, Num 70, Num 80])"
    by (simp add: derived_def eval_simps roll_eval_simps)
  have dr: "(''brent_price_roll_mean_3'', [NaN, NaN, Num 60, Num 70])
      \<in> set (derived ''brent_price'' [Num 50, Num 60, Num 70, Num 80])"
    by (simp add: derived_def eval_simps roll_eval_simps)
  from recompute_features_matches_builder [OF pc rc] obtain b0 b where
    b0: "select_columns ex_combined_exog (''date'' # base_variables ex_history_exog) = Inr b0"
    and b: "feature_step b0 = Inr b"
    and all: "\<forall>v \<in> set (base_variables ex_history_exog).
        \<exists>s. getcol ex_combined_exog v = Some s \<and>
          (\<forall>(x, series) \<in> set (derived v s).
             getcol p x = Some series \<and> getcol b x = Some series)"
    by (elim exE conjE)
  have "''brent_price'' \<in> set (base_variables ex_history_exog)" by (simp add: bv)
  with all obtain s where s: "getcol ex_combined_exog ''brent_price'' = Some s"
    and d: "\<forall>(x, series) \<in> set (derived ''brent_price'' s).
       getcol p x = Some series \<and> getcol b x = Some series" by blast
  from s gc have s_eq: "s = [Num 50, Num 60, Num 70, Num 80]" by simp
  from d dl have l: "getcol p ''brent_price_lag_1'' = Some [NaN, Num 50, Num 60, Num 70] \<and>
      getcol b ''brent_price_lag_1'' = Some [NaN, Num 50, Num 60, Num 70]"
    unfolding s_eq by fast
  from d dr have r: "getcol p ''brent_price_roll_mean_3'' = Some [NaN, NaN, Num 60, Num 70] \<and>
      getcol b ''brent_price_roll_mean_3'' = Some [NaN, NaN, Num 60, Num 70]"
    unfolding s_eq by fast
  from b0 have b0': "select_columns ex_combined_exog [''date'', ''saudi_production'', ''brent_price'']
      = Inr b0" by (simp only: bv)
  note l1 = conjunct1 [OF l] and l2 = conjunct2 [OF l]
    and r1 = conjunct1 [OF r] and r2 = conjunct2 [OF r]
  show ?thesis by (intro conjI exI) (rule pc rc b0' b l1 l2 r1 r2)+
qed

section \<open>Sorting, concatenation and the synthesized rows\<close>

lemma argsort_perm:
  assumes "argsort s = Inr idx"
  shows "set idx = {0..<length s}" "distinct idx" "length idx = length s"
proof -
  let ?P = "\<lambda>i. s ! i \<noteq> NaN"
  from assms have idx: "idx = sort_key (\<lambda>i. stamp_key (s ! i)) (filter ?P [0..<length s]) @
      filter (\<lambda>i. s ! i = NaN) [0..<length s]"
    by (simp add: argsort_def split: if_splits)
  show "set idx = {0..<length s}" unfolding idx by auto
  show d: "distinct idx" unfolding idx by auto
  have "length idx = length (filter ?P [0..<length s]) + length (filter (\<lambda>i. \<not> ?P i) [0..<length s])"
    unfolding idx by simp
  also have "\<dots> = length [0..<length s]" by (rule sum_length_filter_compl)
  finally show "length idx = length s" by simp
qed

lemma argsort_cells:
  "argsort s = Inr idx \<Longrightarrow> c \<in> set s \<Longrightarrow> is_stamp c \<or> c = NaN"
  by (auto simp: argsort_def list_all_iff split: if_splits)

lemma map_of_tabulate:
  "map_of (map (\<lambda>c. (c, f c)) cs) x = (if x \<in> set cs then Some (f x) else None)"
  by (induction cs) auto

lemma getcol_concat_df:
  "getcol (concat_df a b) c =
     (if c \<in> set (columns a) \<or> c \<in> set (columns b)
      then Some (col_or_missing a c @ col_or_missing b c) else None)"
  by (simp only: getcol_def concat_df_def map_of_tabulate) auto

lemma getcol_Some_columns: "getcol df c = Some s \<Longrightarrow> c \<in> set (columns df)"
  by (auto simp: getcol_def columns_def dest!: map_of_SomeD intro: rev_image_eqI)

lemma col_or_missing_Some: "getcol df c = Some s \<Longrightarrow> col_or_missing df c = s"
  by (simp add: col_or_missing_def)

lemma iloc_last_keys: "iloc_last df = Inr r \<Longrightarrow> map fst r = columns df"
  by (auto simp: iloc_last_def columns_def split: if_splits)

lemma synth_row_keys:
  "''date'' \<in> set (map fst r) \<Longrightarrow> map fst (synth_row r idx d sc) = map fst r"
  by (simp add: synth_row_def apply_scenario_keys update_keys)

lemma getcol_frame_of_rows:
  assumes "rows \<noteq> []" "c \<in> set (map fst (hd rows))"
  shows "getcol (frame_of_rows rows) c =
           Some (map (\<lambda>r. case map_of r c of None \<Rightarrow> NaN | Some v \<Rightarrow> v) rows)"
proof (cases rows)
  case Nil
  with assms show ?thesis by simp
next
  case (Cons r rest)
  with assms(2) have "c \<in> set (map fst r)" by simp
  then show ?thesis unfolding Cons by (simp only: frame_of_rows_def getcol_def list.case map_of_tabulate if_True)
qed

lemma columns_frame_of_rows: "rows \<noteq> [] \<Longrightarrow> columns (frame_of_rows rows) = map fst (hd rows)"
  by (cases rows) (auto simp: frame_of_rows_def columns_def comp_def)

lemma nth_enumerate_map:
  "i < length xs \<Longrightarrow> map (\<lambda>(j, x). f j x) (enumerate 0 xs) ! i = f i (xs ! i)"
  by (simp add: nth_enumerate_eq)

lemma nrows_take_rows: "df \<noteq> [] \<Longrightarrow> nrows (take_rows idx df) = length idx"
  by (cases df) (auto simp: nrows_def take_rows_def)

lemma getcol_nonempty: "getcol df c = Some s \<Longrightarrow> df \<noteq> []"
  by (auto simp: getcol_def)

lemma take_rows_lengths: "getcol (take_rows idx df) c = Some s \<Longrightarrow> length s = length idx"
  by (auto simp: getcol_take_rows)

lemma prepare_combined_cases:
  assumes "prepare_combined features dates scenario = Inr combined"
  obtains base_df last_row where
    "sort_values features ''date'' = Inr base_df" "iloc_last base_df = Inr last_row"
    "sort_values
       (concat_df base_df
          (frame_of_rows (map (\<lambda>(idx, date). synth_row last_row idx date scenario) (enumerate 0 dates))))
       ''date'' = Inr combined"
  using assms by (auto simp: prepare_combined_def split: sum.splits)

lemma synth_row_position:
  assumes pc: "prepare_combined features dates scenario = Inr combined" and i: "i < length dates"
  shows "\<exists>base_df last_row pos.
           sort_values features ''date'' = Inr base_df \<and> iloc_last base_df = Inr last_row \<and>
           pos < nrows combined \<and>
           (\<forall>c s. getcol combined c = Some s \<longrightarrow>
              length s = nrows combined \<and>
              map_of (synth_row last_row i (dates ! i) scenario) c = Some (s ! pos))"
proof -
  from pc obtain base_df last_row where
    sb: "sort_values features ''date'' = Inr base_df" and il: "iloc_last base_df = Inr last_row" and
    sc: "sort_values
       (concat_df base_df
          (frame_of_rows (map (\<lambda>(idx, date). synth_row last_row idx date scenario) (enumerate 0 dates))))
       ''date'' = Inr combined" by (rule prepare_combined_cases)
  define rows where "rows = map (\<lambda>(idx, date). synth_row last_row idx date scenario) (enumerate 0 dates)"
  define cat where "cat = concat_df base_df (frame_of_rows rows)"
  from sb obtain s1 idx1 where b1: "getcol features ''date'' = Some s1" "argsort s1 = Inr idx1"
    "base_df = take_rows idx1 features" by (rule sort_values_cases)
  from sc obtain s2 idx2 where b2: "getcol cat ''date'' = Some s2" "argsort s2 = Inr idx2"
    "combined = take_rows idx2 cat" unfolding cat_def rows_def by (rule sort_values_cases)
  have keys: "map fst last_row = columns base_df" by (rule iloc_last_keys [OF il])
  have date_base: "''date'' \<in> set (columns base_df)"
    using sort_values_has_key [OF sb] by (auto dest: getcol_Some_columns)
  have len_rows: "length rows = length dates" by (simp add: rows_def)
  with i have rows_ne: "rows \<noteq> []" by auto
  have row_i: "rows ! i = synth_row last_row i (dates ! i) scenario"
    using i by (simp add: rows_def nth_enumerate_eq)
  have row_keys: "map fst r = columns base_df" if "r \<in> set rows" for r
    using that date_base keys by (auto simp: rows_def synth_row_keys in_set_enumerate_eq)
  have cols_pred: "columns (frame_of_rows rows) = columns base_df"
    using columns_frame_of_rows [OF rows_ne] row_keys [of "hd rows"] rows_ne by simp
  have n: "nrows base_df = length idx1"
    unfolding b1(3) using getcol_nonempty [OF b1(1)] by (rule nrows_take_rows)
  have cat_col: "getcol cat c = Some (sb @ map (\<lambda>r. case map_of r c of None \<Rightarrow> NaN | Some v \<Rightarrow> v) rows)
      \<and> length sb = length idx1"
    if "getcol base_df c = Some sb" for c sb
  proof -
    from that have cb: "c \<in> set (columns base_df)" by (rule getcol_Some_columns)
    with row_keys [of "hd rows"] rows_ne have "c \<in> set (map fst (hd rows))" by simp
    from getcol_frame_of_rows [OF rows_ne this] that cb show ?thesis
      by (simp add: cat_def getcol_concat_df col_or_missing_def b1(3) take_rows_lengths [OF that [unfolded b1(3)]])
  qed
  have cat_cols: "getcol cat c = Some s \<Longrightarrow> \<exists>sb. getcol base_df c = Some sb" for c s
    by (cases "getcol base_df c")
      (auto simp: cat_def getcol_concat_df cols_pred getcol_None_iff split: if_splits)
  from sort_values_has_key [OF sb] obtain d1 where d1: "getcol base_df ''date'' = Some d1" by auto
  from cat_col [OF d1] b2(1) have s2: "length s2 = length idx1 + length dates"
    by (auto simp: len_rows)
  from argsort_perm [OF b2(2)] s2 i have "length idx1 + i \<in> set idx2" by simp
  then obtain pos where pos: "pos < length idx2" "idx2 ! pos = length idx1 + i"
    by (auto simp: in_set_conv_nth)
  have nc: "nrows combined = length idx2"
    unfolding b2(3) using getcol_nonempty [OF b2(1)] by (rule nrows_take_rows)
  have "\<forall>c s. getcol combined c = Some s \<longrightarrow>
          length s = nrows combined \<and>
          map_of (synth_row last_row i (dates ! i) scenario) c = Some (s ! pos)"
  proof (intro allI impI)
    fix c s assume cs: "getcol combined c = Some s"
    then obtain sc where sc: "getcol cat c = Some sc" "s = map (\<lambda>j. sc ! j) idx2"
      by (auto simp: b2(3) getcol_take_rows)
    from cat_cols [OF sc(1)] obtain sb where sb': "getcol base_df c = Some sb" by blast
    from cat_col [OF sb'] sc(1) have sc_eq:
      "sc = sb @ map (\<lambda>r. case map_of r c of None \<Rightarrow> NaN | Some v \<Rightarrow> v) rows"
      and lsb: "length sb = length idx1" by simp_all
    have "c \<in> set (map fst (rows ! i))"
      using row_keys [of "rows ! i"] i len_rows getcol_Some_columns [OF sb'] by simp
    then obtain v where v: "map_of (rows ! i) c = Some v"
      by (cases "map_of (rows ! i) c") (auto simp: map_of_eq_None_iff)
    have "s ! pos = sc ! (length idx1 + i)" using pos by (simp add: sc(2))
    also have "\<dots> = v" using i v by (simp add: sc_eq lsb nth_append len_rows)
    finally have "s ! pos = v" .
    with v row_i nc sc(2) show "length s = nrows combined \<and>
          map_of (synth_row last_row i (dates ! i) scenario) c = Some (s ! pos)" by simp
  qed
  with sb il pos(1) nc show ?thesis by auto
qed

lemma sort_values_key_cells:
  assumes "sort_values df by = Inr r" "getcol r by = Some d" "c \<in> set d"
  shows "is_stamp c \<or> c = NaN"
proof -
  from assms(1) obtain s idx where s: "getcol df by = Some s" "argsort s = Inr idx" "r = take_rows idx df"
    by (rule sort_values_cases)
  from assms(2) s have d: "d = map (\<lambda>i. s ! i) idx" by (simp add: getcol_take_rows)
  from assms(3) obtain i where "i \<in> set idx" "c = s ! i" unfolding d by auto
  with argsort_perm(1) [OF s(2)] have "c \<in> set s" by auto
  with s(2) show ?thesis by (rule argsort_cells)
qed

lemma prepare_combined_date_cells:
  assumes "prepare_combined features dates scenario = Inr combined"
    "getcol combined ''date'' = Some d" "c \<in> set d"
  shows "is_stamp c \<or> c = NaN"
  using assms(1)
  by (rule prepare_combined_cases) (rule sort_values_key_cells [OF _ assms(2,3)])

lemma derived_lookup_lag:
  "k \<in> set [1, 2, 3, 6, 12] \<Longrightarrow> map_of (rev (derived c s)) (lag_name c k) = Some (shift k s)"
  by (auto simp: derived_def)

lemma derived_lookup_roll:
  "w \<in> set [3, 6, 12] \<Longrightarrow> st \<in> set [''mean'', ''std''] \<Longrightarrow>
   map_of (rev (derived c s)) (roll_name c st w) = Some (rolling (nat w) (stat_value st) s)"
  by (auto simp: derived_def roll_name_inj supported_stats_def)

lemma lag_name_derived: "k \<in> set [1, 2, 3, 6, 12] \<Longrightarrow> lag_name c k \<in> set (derived_names c)"
  by (auto simp: derived_names_def derived_def)

lemma roll_name_derived:
  "w \<in> set [3, 6, 12] \<Longrightarrow> st \<in> set [''mean'', ''std''] \<Longrightarrow> roll_name c st w \<in> set (derived_names c)"
  by (auto simp: derived_names_def derived_def)

text \<open>
  C10. When the scenario names the target column and has a value for the \<open>i\<close>-th requested
  date, the combined sequence has a row that carries that date and, as the target's base
  value, the scenario value instead of the template's. The recomputed target features see
  it: each target lag column is the target column shifted, so the row \<open>k\<close> places further
  down holds the scenario value as \<open>saudi_production_lag_k\<close>; and at the row itself, when the
  \<open>w - 1\<close> target values before it are present, \<open>saudi_production_roll_mean_w\<close> is their sum
  plus the scenario value, divided by \<open>w\<close>, and \<open>saudi_production_roll_std_w\<close> is the sample
  standard deviation of those values together with the scenario value.
\<close>

theorem target_override_reflected:
  assumes "prepare_combined features dates scenario = Inr combined"
    and "recompute_features features combined = Inr p"
    and "distinct (map fst scenario)"
    and "map_of scenario target_col = Some vals"
    and "i < length dates" and "i < length vals"
  shows "\<exists>t d pos. getcol combined target_col = Some t \<and> getcol combined ''date'' = Some d \<and>
           length d = length t \<and> pos < length t \<and>
           d ! pos = dates ! i \<and> t ! pos = Num (vals ! i) \<and>
           (\<forall>k \<in> set [1, 2, 3, 6, 12].
              \<exists>l. getcol p (lag_name target_col k) = Some l \<and> length l = length t \<and>
                (pos + nat k < length t \<longrightarrow> l ! (pos + nat k) = Num (vals ! i))) \<and>
           (\<forall>w \<in> set [3, 6, 12].
              \<exists>m sd. getcol p (roll_name target_col ''mean'' w) = Some m \<and>
                getcol p (roll_name target_col ''std'' w) = Some sd \<and>
                length m = length t \<and> length sd = length t \<and>
                (nat w \<le> Suc pos \<longrightarrow>
                   (\<forall>ys. map (\<lambda>j. t ! j) [Suc pos - nat w..<pos] = map Num ys \<longrightarrow>
                      m ! pos = Num ((sum_list ys + vals ! i) / real_of_int w) \<and>
                      sd ! pos =
                        Num (sqrt ((sum_list (map (\<lambda>y. (y - (sum_list ys + vals ! i) / real_of_int w)\<^sup>2) ys) +
                                    (vals ! i - (sum_list ys + vals ! i) / real_of_int w)\<^sup>2) /
                                   (real_of_int w - 1))))))"
proof -
  let ?vars = "target_col # other_columns features"
  from assms(2) have rc: "derive_features combined ?vars = Inr p"
    by (simp add: recompute_features_def)
  have "\<forall>v \<in> set ?vars. target_col \<notin> set (derived_names v)" by (simp add: target_not_derived)
  from derive_features_stable [OF rc _ this] obtain t where
    t: "getcol combined target_col = Some t" and
    feat: "\<forall>x \<in> set (derived_names target_col). getcol p x = map_of (rev (derived target_col t)) x"
    by auto
  from prepare_combined_has_date [OF assms(1)] obtain d where d: "getcol combined ''date'' = Some d"
    by auto
  from synth_row_position [OF assms(1,5)] obtain last_row pos where
    pos: "pos < nrows combined" and
    row: "\<forall>c s. getcol combined c = Some s \<longrightarrow>
              length s = nrows combined \<and>
              map_of (synth_row last_row i (dates ! i) scenario) c = Some (s ! pos)" by blast
  let ?row0 = "AList.update ''date'' (dates ! i) last_row"
  from row t have lt: "length t = nrows combined"
    and rt: "map_of (apply_scenario ?row0 i scenario) target_col = Some (t ! pos)"
    by (simp_all add: synth_row_def)
  from row d have ld: "length d = nrows combined"
    and rd: "map_of (apply_scenario ?row0 i scenario) ''date'' = Some (d ! pos)"
    by (simp_all add: synth_row_def)
  have in_keys: "c \<in> set (map fst ?row0)" if "map_of (apply_scenario ?row0 i scenario) c = Some v" for c v
  proof -
    from that have "c \<in> fst ` set (apply_scenario ?row0 i scenario)"
      by (auto dest!: map_of_SomeD intro: rev_image_eqI)
    then show ?thesis using apply_scenario_keys [of ?row0 i scenario] by (metis set_map)
  qed
  have tv: "t ! pos = Num (vals ! i)"
    using rt in_keys [OF rt] assms(4,6) apply_scenario_lookup [OF assms(3), of ?row0 i target_col]
    by simp
  have dv: "d ! pos = dates ! i"
  proof -
    from pos ld have "d ! pos \<in> set d" by simp
    from prepare_combined_date_cells [OF assms(1) d this] have ns: "\<forall>x. d ! pos \<noteq> Num x" "\<forall>x. Num x \<noteq> d ! pos"
      by (auto simp: is_stamp_def split: cell.splits)
    have "map_of ?row0 ''date'' = Some (dates ! i)" by (simp add: update_conv')
    with rd ns apply_scenario_lookup [OF assms(3), of ?row0 i "''date''"] show ?thesis
      by (auto split: option.splits if_splits)
  qed
  have lags: "\<forall>k \<in> set [1, 2, 3, 6, 12].
              \<exists>l. getcol p (lag_name target_col k) = Some l \<and> length l = length t \<and>
                (pos + nat k < length t \<longrightarrow> l ! (pos + nat k) = Num (vals ! i))"
  proof
    fix k :: int assume k: "k \<in> set [1, 2, 3, 6, 12]"
    then have k0: "0 \<le> k" by auto
    from feat lag_name_derived [OF k] derived_lookup_lag [OF k]
    have g: "getcol p (lag_name target_col k) = Some (shift k t)" by simp
    have "shift k t ! (pos + nat k) = Num (vals ! i)" if "pos + nat k < length t"
      using that k0 tv pos lt by (simp add: nth_shift)
    with g show "\<exists>l. getcol p (lag_name target_col k) = Some l \<and> length l = length t \<and>
                (pos + nat k < length t \<longrightarrow> l ! (pos + nat k) = Num (vals ! i))" by simp
  qed
  have rolls: "\<forall>w \<in> set [3, 6, 12].
              \<exists>m sd. getcol p (roll_name target_col ''mean'' w) = Some m \<and>
                getcol p (roll_name target_col ''std'' w) = Some sd \<and>
                length m = length t \<and> length sd = length t \<and>
                (nat w \<le> Suc pos \<longrightarrow>
                   (\<forall>ys. map (\<lambda>j. t ! j) [Suc pos - nat w..<pos] = map Num ys \<longrightarrow>
                      m ! pos = Num ((sum_list ys + vals ! i) / real_of_int w) \<and>
                      sd ! pos =
                        Num (sqrt ((sum_list (map (\<lambda>y. (y - (sum_list ys + vals ! i) / real_of_int w)\<^sup>2) ys) +
                                    (vals ! i - (sum_list ys + vals ! i) / real_of_int w)\<^sup>2) /
                                   (real_of_int w - 1)))))"
  proof
    fix w :: int
    assume w: "w \<in> set [3, 6, 12]"
    then have w3: "3 \<le> w" by auto
    let ?m = "rolling (nat w) (stat_value ''mean'') t"
    let ?sd = "rolling (nat w) (stat_value ''std'') t"
    have st: "''mean'' \<in> set [''mean'', ''std'']" "''std'' \<in> set [''mean'', ''std'']" by simp_all
    from feat roll_name_derived [OF w st(1)] derived_lookup_roll [OF w st(1)]
    have gm: "getcol p (roll_name target_col ''mean'' w) = Some ?m" by simp
    from feat roll_name_derived [OF w st(2)] derived_lookup_roll [OF w st(2)]
    have gs: "getcol p (roll_name target_col ''std'' w) = Some ?sd" by simp
    have vals_at: "?m ! pos = Num ((sum_list ys + vals ! i) / real_of_int w) \<and>
        ?sd ! pos =
          Num (sqrt ((sum_list (map (\<lambda>y. (y - (sum_list ys + vals ! i) / real_of_int w)\<^sup>2) ys) +
                      (vals ! i - (sum_list ys + vals ! i) / real_of_int w)\<^sup>2) /
                     (real_of_int w - 1)))"
      if le: "nat w \<le> Suc pos" and m: "map (\<lambda>j. t ! j) [Suc pos - nat w..<pos] = map Num ys" for ys
    proof -
      from pos lt have pl: "pos < length t" by simp
      from w3 have lo: "Suc pos - nat w \<le> pos" by simp
      then have "[Suc pos - nat w..<Suc pos] = [Suc pos - nat w..<pos] @ [pos]" by simp
      with m tv have full: "map (\<lambda>j. t ! j) [Suc pos - nat w..<Suc pos] = map Num (ys @ [vals ! i])"
        by simp
      from arg_cong [OF m, of length] le w3 have ly: "length (ys @ [vals ! i]) = nat w" by simp
      from w3 have w0: "0 \<le> w" by simp
      from rolling_full [OF pl le full] stat_value_explicit(1) [OF ly w0] w3
      have a: "?m ! pos = Num ((sum_list ys + vals ! i) / real_of_int w)" by simp
      from rolling_full [OF pl le full] stat_value_explicit(2) [OF ly w0] w3
      have b: "?sd ! pos =
          Num (sqrt ((sum_list (map (\<lambda>y. (y - (sum_list ys + vals ! i) / real_of_int w)\<^sup>2) ys) +
                      (vals ! i - (sum_list ys + vals ! i) / real_of_int w)\<^sup>2) /
                     (real_of_int w - 1)))" by simp
      from a b show ?thesis by simp
    qed
    show "\<exists>m sd. getcol p (roll_name target_col ''mean'' w) = Some m \<and>
                getcol p (roll_name target_col ''std'' w) = Some sd \<and>
                length m = length t \<and> length sd = length t \<and>
                (nat w \<le> Suc pos \<longrightarrow>
                   (\<forall>ys. map (\<lambda>j. t ! j) [Suc pos - nat w..<pos] = map Num ys \<longrightarrow>
                      m ! pos = Num ((sum_list ys + vals ! i) / real_of_int w) \<and>
                      sd ! pos =
                        Num (sqrt ((sum_list (map (\<lambda>y. (y - (sum_list ys + vals ! i) / real_of_int w)\<^sup>2) ys) +
                                    (vals ! i - (sum_list ys + vals ! i) / real_of_int w)\<^sup>2) /
                                   (real_of_int w - 1)))))"
      using gm gs vals_at by (intro exI [of _ ?m] exI [of _ ?sd]) simp
  qed
  have ldt: "length d = length t" and pl: "pos < length t" using ld lt pos by simp_all
  show ?thesis
    by (rule exI [of _ t], rule exI [of _ d], rule exI [of _ pos])
      (intro conjI t d ldt pl dv tv lags rolls)
qed

theorem target_override_reflected_witness:
  "prepare_combined ex_history [Stamp 2 0, Stamp 3 0] ex_target_scenario = Inr ex_combined_target \<and>
   distinct (map fst ex_target_scenario) \<and>
   map_of ex_target_scenario target_col = Some [3] \<and>
   (\<exists>p. recompute_features ex_history ex_combined_target = Inr p \<and>
      getcol p ''saudi_production_lag_1'' = Some [NaN, Num 1, Num 2, Num 3] \<and>
      (\<exists>m sd. getcol p ''saudi_production_roll_mean_3'' = Some m \<and> m ! 2 = Num 2 \<and>
         getcol p ''saudi_production_roll_std_3'' = Some sd \<and> sd ! 2 = Num 1) \<and>
      (\<exists>t d pos. getcol ex_combined_target target_col = Some t \<and>
         getcol ex_combined_target ''date'' = Some d \<and> pos < length t \<and>
         d ! pos = Stamp 2 0 \<and> t ! pos = Num 3))"
proof -
  have pc: "prepare_combined ex_history [Stamp 2 0, Stamp 3 0] ex_target_scenario =
      Inr ex_combined_target"
    by (simp add: ex_history_def ex_combined_target_def ex_target_scenario_def prep_simps
        eval_simps upt_rec)
  have ds: "distinct (map fst ex_target_scenario)" by (simp add: ex_target_scenario_def)
  have ms: "map_of ex_target_scenario target_col = Some [3]"
    by (simp add: ex_target_scenario_def target_col_def)
  have "\<exists>p. recompute_features ex_history ex_combined_target = Inr p \<and>
      getcol p ''saudi_production_lag_1'' = Some [NaN, Num 1, Num 2, Num 3] \<and>
      (\<exists>m sd. getcol p ''saudi_production_roll_mean_3'' = Some m \<and> m ! 2 = Num 2 \<and>
         getcol p ''saudi_production_roll_std_3'' = Some sd \<and> sd ! 2 = Num 1)"
    by (simp add: ex_history_def ex_combined_target_def derive_simps eval_simps roll_eval_simps)
  then obtain p where rc: "recompute_features ex_history ex_combined_target = Inr p"
    and v: "getcol p ''saudi_production_lag_1'' = Some [NaN, Num 1, Num 2, Num 3]"
      "\<exists>m sd. getcol p ''saudi_production_roll_mean_3'' = Some m \<and> m ! 2 = Num 2 \<and>
         getcol p ''saudi_production_roll_std_3'' = Some sd \<and> sd ! 2 = Num 1" by blast
  have i: "(0::nat) < length [Stamp 2 0, Stamp 3 0]" "(0::nat) < length [3::real]" by simp_all
  from target_override_reflected [OF pc rc ds ms i] obtain t d pos where
    "getcol ex_combined_target target_col = Some t \<and> getcol ex_combined_target ''date'' = Some d \<and>
     length d = length t \<and> pos < length t \<and>
     d ! pos = [Stamp 2 0, Stamp 3 0] ! 0 \<and> t ! pos = Num ([3] ! 0)"
    by (elim exE conjE) (rule that, intro conjI)
  then have "getcol ex_combined_target target_col = Some t \<and>
         getcol ex_combined_target ''date'' = Some d \<and> pos < length t \<and>
         d ! pos = Stamp 2 0 \<and> t ! pos = Num 3" by simp
  with pc ds ms rc v show ?thesis by blast
qed

section \<open>Order of the predictions\<close>

lemmas predict_simps = predict_def prepare_inputs_def dropna_def filter_rows_def notna_row_def
  startswith_def

lemma ex_features_combined:
  "prepare_combined ex_features [Stamp 14 0, Stamp 13 0] [(''brent_price'', [100, 200])] =
     Inr [(''date'', map (\<lambda>m. Stamp m 0) [0, 1, 2, 3, 4, 5, 6, 7, 8, 9, 10, 11, 12, 13, 14]),
          (''saudi_production'', map Num [1, 2, 3, 4, 5, 6, 7, 8, 9, 10, 11, 12, 13, 13, 13]),
          (''brent_price'',
           map Num [50, 50, 50, 50, 50, 50, 50, 50, 50, 50, 50, 50, 50, 200, 100])]"
  by (simp add: ex_features_def prep_simps eval_simps upt_rec)

text \<open>
  C2, the code at a request whose dates are not ascending. The history has thirteen months
  and the model returns its single input \<open>brent_price\<close>. Month 14 is requested first with a
  price of 100, month 13 second with a price of 200. The combined frame is sorted by date
  before the requested rows are selected, so the predictions come back in date order: the
  first one, 200, belongs to the second requested date.
\<close>

theorem predict_returns_date_order:
  "predict ex_forecaster ex_features [Stamp 14 0, Stamp 13 0]
     (Some [(''brent_price'', [100, 200])]) = Inr [200, 100]"
  apply (simp only: predict_def prepare_inputs_def ex_features_combined sum.case option.case)
  apply (simp add: ex_forecaster_def ex_features_def predict_simps derive_simps eval_simps
      roll_eval_simps take_rows_def Let_def)
  done

section \<open>The prediction endpoint\<close>

text \<open>
  C3. A request whose list of dates is empty violates the \<open>min_length=1\<close> that the schema
  declares for \<open>dates\<close>: the endpoint answers with status 422, a client error, and the
  handler is never entered, so no model is loaded and no prediction is made.
\<close>

theorem predict_route_rejects_empty_dates:
  assumes "body_dates body = Some []"
  shows "(\<exists>detail. fst (predict_route env body) = ErrorResponse 422 detail) \<and>
         400 \<le> status_code (fst (predict_route env body)) \<and>
         status_code (fst (predict_route env body)) < 500 \<and>
         snd (predict_route env body) = []"
proof -
  from assms have "field_errors dates_field (body_dates body) \<noteq> []"
    by (simp add: field_errors_def dates_field_def)
  then obtain e es where "field_errors dates_field (body_dates body) = e # es"
    by (cases "field_errors dates_field (body_dates body)") simp_all
  then have "validate_request body = Inl (e # es)" by (simp add: validate_request_def)
  then have "predict_route env body = (ErrorResponse 422 (List.concat (e # es)), [])"
    by (simp add: predict_route_def)
  then show ?thesis by (simp add: status_code_def)
qed

theorem predict_route_rejects_empty_dates_witness:
  "body_dates ex_empty_body = Some [] \<and>
   predict_route ex_collaborators ex_empty_body =
     (ErrorResponse 422 ''List should have at least 1 item after validation'', [])"
proof -
  have e: "body_dates ex_empty_body = Some []" by (simp add: ex_empty_body_def)
  have "validate_request ex_empty_body = Inl [''List should have at least 1 item after validation'']"
    by (simp add: validate_request_def field_errors_def dates_field_def ex_empty_body_def
        str_nat.simps digit_char_def)
  then have r: "fst (predict_route ex_collaborators ex_empty_body) =
      ErrorResponse 422 ''List should have at least 1 item after validation''"
    by (simp add: predict_route_def)
  from predict_route_rejects_empty_dates [OF e, of ex_collaborators]
  have "snd (predict_route ex_collaborators ex_empty_body) = []" by (elim conjE)
  with r e show ?thesis by (simp add: prod_eq_iff)
qed

text \<open>
  The guard inside the handler would not give a client error, were the handler reached with
  an empty list: its \<open>HTTPException(400)\<close> is raised inside the \<open>try\<close> block and turned
  into status 500 by the \<open>except\<close> clause.
\<close>

lemma predict_handler_empty_dates:
  "req_dates req = [] \<Longrightarrow>
   predict_handler env req =
     (ErrorResponse 500 (exn_str (HTTPException 400 ''At least one date must be provided.'')),
      [LogException])"
  by (simp add: predict_handler_def predict_body_def)

section \<open>Dates through the builder\<close>

lemma ascending_dates_distinct: "ascending_dates d \<Longrightarrow> distinct d"
proof -
  assume "ascending_dates d"
  then have "distinct (map stamp_key d)" by (simp add: ascending_dates_def strict_sorted_iff)
  then show ?thesis by (simp add: distinct_map)
qed

lemma ascending_dates_no_NaN: "ascending_dates d \<Longrightarrow> NaN \<notin> set d"
  by (auto simp: ascending_dates_def list_all_iff is_stamp_def)

lemma ascending_month_starts: "ascending_dates (map (\<lambda>m. Stamp m 0) (month_grid d))"
proof -
  have "sorted_wrt (<) (month_grid d)" by (simp add: month_grid_def Let_def)
  then have "sorted_wrt (<) (map (\<lambda>m. (m, 0::nat)) (month_grid d))"
    by (simp add: sorted_wrt_map)
  then show ?thesis
    by (simp add: ascending_dates_def list_all_iff is_stamp_def stamp_key_def comp_def)
qed

lemma ascending_group_keys: "ascending_dates (map (\<lambda>(m, off). Stamp m off) (group_keys d))"
proof -
  have "sorted_wrt (<) (group_keys d)" by (simp add: group_keys_def strict_sorted_iff)
  moreover have "map stamp_key (map (\<lambda>(m, off). Stamp m off) ks) = ks" for ks
    by (induction ks) (auto simp: stamp_key_def)
  ultimately show ?thesis
    by (auto simp: ascending_dates_def list_all_iff is_stamp_def)
qed

lemma rect_Cons_map:
  "rect ((c, map f xs) # map (\<lambda>(c, s). (c, map (g s) xs)) vals)"
  by (auto simp: rect_def nrows_def list_all_iff)

lemma resample_dates:
  assumes "resample_to_month_start df dc vs how = Inr r"
  shows "\<exists>d. getcol r dc = Some d \<and> ascending_dates d \<and> rect r \<and> nrows r = length d"
proof -
  from assms obtain d vals where d: "getcol df dc = Some d" "select_columns df vs = Inr vals"
    by (auto simp: resample_to_month_start_def split: option.splits sum.splits if_splits)
  let ?g = "map (\<lambda>m. Stamp m 0) (month_grid d)"
  from assms d have "r = (dc, ?g) # map (\<lambda>(c, s). (c, map (ffill_at d s) (month_grid d))) vals \<or>
      r = (dc, ?g) # map (\<lambda>(c, s). (c, map (month_mean d s) (month_grid d))) vals"
    by (auto simp: resample_to_month_start_def split: if_splits)
  then show ?thesis
    by (auto simp: getcol_def rect_def nrows_def list_all_iff ascending_month_starts)
qed

lemma aggregate_dates:
  assumes "aggregate prefix df = Inr r"
  shows "\<exists>d. getcol r ''date'' = Some d \<and> ascending_dates d"
  using assms
  by (auto simp: aggregate_def getcol_def ascending_group_keys split: option.splits)

lemma ffill_from_id: "NaN \<notin> set s \<Longrightarrow> ffill_from prev s = s"
  by (induction s arbitrary: prev) auto

lemma length_ffill_from [simp]: "length (ffill_from prev s) = length s"
  by (induction s arbitrary: prev) auto

lemma getcol_ffill: "getcol (ffill df) c = map_option (ffill_from NaN) (getcol df c)"
  by (induction df) (auto simp: getcol_def ffill_def)

lemma rect_ffill: "rect df \<Longrightarrow> rect (ffill df) \<and> nrows (ffill df) = nrows df"
  by (cases df) (auto simp: rect_def ffill_def nrows_def list_all_iff)

lemma columns_ffill [simp]: "columns (ffill df) = columns df"
  by (induction df) (auto simp: columns_def ffill_def)

end
